theory Spec2Isabelle
  imports Complex_Main "HOL-Library.Word"
begin

section \<open>Doubles\<close>

text \<open>
  The extents of an envelope are C++ doubles. A double is modelled as NaN or a number.
  Every comparison with NaN is false and arithmetic on NaN gives NaN, as in IEEE 754.
  A number is a real: rounding, overflow and the infinities are left out.
\<close>

datatype double = NaN | Fin real

fun isnan :: "double \<Rightarrow> bool" where
  "isnan NaN = True"
| "isnan (Fin x) = False"

fun lt_d :: "double \<Rightarrow> double \<Rightarrow> bool" where
  "lt_d (Fin x) (Fin y) = (x < y)"
| "lt_d _ _ = False"

fun le_d :: "double \<Rightarrow> double \<Rightarrow> bool" where
  "le_d (Fin x) (Fin y) = (x \<le> y)"
| "le_d _ _ = False"

definition gt_d :: "double \<Rightarrow> double \<Rightarrow> bool" where
  "gt_d a b = lt_d b a"

definition ge_d :: "double \<Rightarrow> double \<Rightarrow> bool" where
  "ge_d a b = le_d b a"

fun add_d :: "double \<Rightarrow> double \<Rightarrow> double" where
  "add_d (Fin x) (Fin y) = Fin (x + y)"
| "add_d _ _ = NaN"

fun sub_d :: "double \<Rightarrow> double \<Rightarrow> double" where
  "sub_d (Fin x) (Fin y) = Fin (x - y)"
| "sub_d _ _ = NaN"

text \<open>The larger and the smaller of two numbers, as the spec words them.\<close>

fun max_d :: "double \<Rightarrow> double \<Rightarrow> double" where
  "max_d (Fin x) (Fin y) = Fin (max x y)"
| "max_d _ _ = NaN"

fun min_d :: "double \<Rightarrow> double \<Rightarrow> double" where
  "min_d (Fin x) (Fin y) = Fin (min x y)"
| "min_d _ _ = NaN"

section \<open>Envelope3d\<close>

text \<open>
  Modelled from the spec: the class declaration geos/geom/Envelope3d.h is not among the
  sources, only Envelope3d.cpp is. The spec (section 3) gives a bounding volume six scalar
  extents, a min and a max per axis, and a distinguished null state. The null state is
  the one of NaN extents: the comment in \<^verbatim>\<open>Envelope3d::intersects\<close> (the comparison
  that "catches cases where this->isNull()") and \<^verbatim>\<open>CoordinateXYZ::isNull\<close> in
  Coordinate3d.h both rest on NaN.
\<close>

record Envelope3d =
  minx :: double
  maxx :: double
  miny :: double
  maxy :: double
  minz :: double
  maxz :: double

text \<open>Modelled from the spec: \<^verbatim>\<open>isNull()\<close>, the test for the null state.\<close>

definition isNull :: "Envelope3d \<Rightarrow> bool" where
  "isNull e = isnan (maxx e)"

text \<open>Modelled from the spec: \<^verbatim>\<open>setToNull()\<close> puts the envelope in the null state.\<close>

definition setToNull :: "Envelope3d \<Rightarrow> Envelope3d" where
  "setToNull e = \<lparr>minx = NaN, maxx = NaN, miny = NaN, maxy = NaN, minz = NaN, maxz = NaN\<rparr>"

text \<open>
  Modelled from the spec: \<^verbatim>\<open>expandToInclude(const Envelope3d&)\<close> "mutates in place to
  the minimal covering volume; no-op if other is null", and "on a null box adopts the
  other box unchanged" (sections 3 and 4.1).
\<close>

definition expandToInclude :: "Envelope3d \<Rightarrow> Envelope3d \<Rightarrow> Envelope3d" where
  "expandToInclude e other =
     (if isNull other then e
      else if isNull e then other
      else \<lparr>minx = (if lt_d (minx other) (minx e) then minx other else minx e),
            maxx = (if gt_d (maxx other) (maxx e) then maxx other else maxx e),
            miny = (if lt_d (miny other) (miny e) then miny other else miny e),
            maxy = (if gt_d (maxy other) (maxy e) then maxy other else maxy e),
            minz = (if lt_d (minz other) (minz e) then minz other else minz e),
            maxz = (if gt_d (maxz other) (maxz e) then maxz other else maxz e)\<rparr>)"

text \<open>
  Modelled from the spec: \<^verbatim>\<open>init(x1, x2, y1, y2, z1, z2)\<close> sets the extents from two
  ordinates per axis; the smaller becomes the min, which is what gives the invariant
  of section 3 (min \<open>\<le>\<close> max on every axis of a non-null box).
\<close>

definition init :: "double \<Rightarrow> double \<Rightarrow> double \<Rightarrow> double \<Rightarrow> double \<Rightarrow> double \<Rightarrow> Envelope3d" where
  "init x1 x2 y1 y2 z1 z2 =
     \<lparr>minx = (if lt_d x1 x2 then x1 else x2), maxx = (if lt_d x1 x2 then x2 else x1),
      miny = (if lt_d y1 y2 then y1 else y2), maxy = (if lt_d y1 y2 then y2 else y1),
      minz = (if lt_d z1 z2 then z1 else z2), maxz = (if lt_d z1 z2 then z2 else z1)\<rparr>"

text \<open>
  Modelled from the spec: \<^verbatim>\<open>intersects(const Envelope3d&)\<close>, true iff the two volumes
  overlap on every axis, touching included; false against a null box (section 4.1).
\<close>

definition intersects :: "Envelope3d \<Rightarrow> Envelope3d \<Rightarrow> bool" where
  "intersects e other =
     (le_d (minx other) (maxx e) \<and> ge_d (maxx other) (minx e) \<and>
      le_d (miny other) (maxy e) \<and> ge_d (maxy other) (miny e) \<and>
      le_d (minz other) (maxz e) \<and> ge_d (maxz other) (minz e))"

text \<open>\<^verbatim>\<open>Envelope3d::covers\<close>, Envelope3d.cpp lines 116-127.\<close>

definition covers :: "Envelope3d \<Rightarrow> Envelope3d \<Rightarrow> bool" where
  "covers e other =
     (ge_d (minx other) (minx e) \<and> le_d (maxx other) (maxx e) \<and>
      ge_d (miny other) (miny e) \<and> le_d (maxy other) (maxy e) \<and>
      ge_d (minz other) (minz e) \<and> le_d (maxz other) (maxz e))"

text \<open>
  \<^verbatim>\<open>Envelope3d::intersection\<close>, Envelope3d.cpp lines 219-235. The C++ returns a bool
  and writes the overlap into \<open>result\<close>; the model returns both.
\<close>

definition intersection :: "Envelope3d \<Rightarrow> Envelope3d \<Rightarrow> Envelope3d \<Rightarrow> bool \<times> Envelope3d" where
  "intersection e env result =
     (if isNull e \<or> isNull env \<or> \<not> intersects e env then (False, result)
      else
        let intMinX = (if gt_d (minx e) (minx env) then minx e else minx env);
            intMinY = (if gt_d (miny e) (miny env) then miny e else miny env);
            intMaxX = (if lt_d (maxx e) (maxx env) then maxx e else maxx env);
            intMaxY = (if lt_d (maxy e) (maxy env) then maxy e else maxy env);
            intMinZ = (if gt_d (minz e) (minz env) then minz e else minz env);
            intMaxZ = (if lt_d (maxz e) (maxz env) then maxz e else maxz env)
        in (True, init intMinX intMaxX intMinY intMaxY intMinZ intMaxZ))"

text \<open>\<^verbatim>\<open>Envelope3d::expandBy\<close>, Envelope3d.cpp lines 250-265.\<close>

definition expandBy :: "Envelope3d \<Rightarrow> double \<Rightarrow> double \<Rightarrow> double \<Rightarrow> Envelope3d" where
  "expandBy e deltaX deltaY deltaZ =
     (let e1 = e\<lparr>minx := sub_d (minx e) deltaX, maxx := add_d (maxx e) deltaX,
                miny := sub_d (miny e) deltaY, maxy := add_d (maxy e) deltaY,
                minz := sub_d (minz e) deltaZ, maxz := add_d (maxz e) deltaZ\<rparr>
      in if gt_d (minx e1) (maxx e1) \<or> gt_d (miny e1) (maxy e1) \<or> gt_d (minz e1) (maxz e1)
         then setToNull e1 else e1)"

text \<open>
  \<^verbatim>\<open>operator<\<close> on envelopes, Envelope3d.cpp lines 268-304: the chain of returns is a
  chain of conditionals in the same order.
\<close>

definition operator_less :: "Envelope3d \<Rightarrow> Envelope3d \<Rightarrow> bool" where
  "operator_less a b =
     (if isNull a then (if isNull b then False else True)
      else if isNull b then False
      else if lt_d (minx a) (minx b) then True
      else if gt_d (minx a) (minx b) then False
      else if lt_d (miny a) (miny b) then True
      else if gt_d (miny a) (miny b) then False
      else if lt_d (minz a) (minz b) then True
      else if gt_d (minz a) (minz b) then False
      else if lt_d (maxx a) (maxx b) then True
      else if gt_d (maxx a) (maxx b) then False
      else if lt_d (maxy a) (maxy b) then True
      else if gt_d (maxy a) (maxy b) then False
      else if lt_d (maxz a) (maxz b) then True
      else if gt_d (maxz a) (maxz b) then False
      else False)"

subsection \<open>The data-model invariant and the spec's wording of the envelope claims\<close>

text \<open>
  Section 3 of the spec: a non-null box has min \<open>\<le>\<close> max on every axis (so none of its
  extents is NaN).
\<close>

definition env_inv :: "Envelope3d \<Rightarrow> bool" where
  "env_inv e =
     (isNull e \<or> le_d (minx e) (maxx e) \<and> le_d (miny e) (maxy e) \<and> le_d (minz e) (maxz e))"

text \<open>Two boxes are disjoint when some axis separates them.\<close>

definition disjoint :: "Envelope3d \<Rightarrow> Envelope3d \<Rightarrow> bool" where
  "disjoint a b =
     (lt_d (maxx a) (minx b) \<or> lt_d (maxx b) (minx a) \<or>
      lt_d (maxy a) (miny b) \<or> lt_d (maxy b) (miny a) \<or>
      lt_d (maxz a) (minz b) \<or> lt_d (maxz b) (minz a))"

text \<open>The tuple \<open>(minX, minY, minZ, maxX, maxY, maxZ)\<close> that the order compares.\<close>

definition ordinates :: "Envelope3d \<Rightarrow> double list" where
  "ordinates e = [minx e, miny e, minz e, maxx e, maxy e, maxz e]"

text \<open>
  An envelope made of numbers: none of its six extents is NaN. Such an envelope is not
  null.
\<close>

definition nan_free :: "Envelope3d \<Rightarrow> bool" where
  "nan_free e = list_all (\<lambda>d. \<not> isnan d) (ordinates e)"

text \<open>
  An envelope that is either the null envelope \<^verbatim>\<open>setToNull\<close> makes, all of whose
  extents are NaN, or made of numbers.
\<close>

definition env_num :: "Envelope3d \<Rightarrow> bool" where
  "env_num e = (if isNull e then e = setToNull e else nan_free e)"

text \<open>
  The minimal bounding volume covering a list of boxes, in the spec's words: the null box
  covers nothing and is the identity; otherwise the least min and the greatest max on
  every axis.
\<close>

definition union_env :: "Envelope3d \<Rightarrow> Envelope3d \<Rightarrow> Envelope3d" where
  "union_env a b =
     (if isNull a then b
      else if isNull b then a
      else \<lparr>minx = min_d (minx a) (minx b), maxx = max_d (maxx a) (maxx b),
            miny = min_d (miny a) (miny b), maxy = max_d (maxy a) (maxy b),
            minz = min_d (minz a) (minz b), maxz = max_d (maxz a) (maxz b)\<rparr>)"

fun minimal_cover :: "Envelope3d list \<Rightarrow> Envelope3d" where
  "minimal_cover [] = \<lparr>minx = NaN, maxx = NaN, miny = NaN, maxy = NaN, minz = NaN, maxz = NaN\<rparr>"
| "minimal_cover (e # es) = union_env e (minimal_cover es)"

section \<open>SimpleSTRnode3d\<close>

text \<open>
  Modelled from the spec: the class declaration geos/index/strtree/SimpleSTRnode3d.h is not
  among the sources, only SimpleSTRnode3d.cpp is. Section 3 of the spec gives a tree node
  its bounds, its level, the ordered list of its children and the item reference of a
  leaf; the member functions below use exactly these.

  A pointer is an address, 0 for \<^verbatim>\<open>nullptr\<close>. The C++ node holds pointers to its
  children; the model holds the children themselves, each with its own address
  \<open>addr\<close>, so that a comparison of node pointers is a comparison of addresses and a
  comparison of item pointers is a comparison of the \<open>item\<close> fields. The child
  structure is a finite tree, as the builder makes it.
\<close>

type_synonym ptr = nat

datatype SimpleSTRnode3d =
  SimpleSTRnode3d (addr: ptr) (childNodes: "SimpleSTRnode3d list") (item: ptr)
    (bounds: Envelope3d) (level: int)

definition getEnvelope :: "SimpleSTRnode3d \<Rightarrow> Envelope3d" where
  "getEnvelope n = bounds n"

definition getItem :: "SimpleSTRnode3d \<Rightarrow> ptr" where
  "getItem n = item n"

definition getChildNodes :: "SimpleSTRnode3d \<Rightarrow> SimpleSTRnode3d list" where
  "getChildNodes n = childNodes n"

text \<open>
  Modelled from the spec: \<^verbatim>\<open>isLeaf()\<close> "= has an item, not children" (section 4.2).
  The counting functions below take the leaf test as a parameter, so what is proved of
  them does not depend on this reading.
\<close>

definition isLeaf :: "SimpleSTRnode3d \<Rightarrow> bool" where
  "isLeaf n = (item n \<noteq> 0 \<and> childNodes n = [])"

text \<open>\<^verbatim>\<open>SimpleSTRnode3d::addChildNode3d\<close>, SimpleSTRnode3d.cpp lines 39-49.\<close>

fun addChildNode3d :: "SimpleSTRnode3d \<Rightarrow> SimpleSTRnode3d \<Rightarrow> SimpleSTRnode3d" where
  "addChildNode3d (SimpleSTRnode3d a cs it b l) childNode =
     SimpleSTRnode3d a (cs @ [childNode]) it
       (if isNull b then getEnvelope childNode else expandToInclude b (getEnvelope childNode)) l"

text \<open>
  \<^verbatim>\<open>SimpleSTRnode3d::getNumNodes\<close> and \<^verbatim>\<open>getNumLeafNodes\<close>, SimpleSTRnode3d.cpp lines
  51-73. The counts are \<^verbatim>\<open>std::size_t\<close>, 64-bit words whose addition wraps; the
  range-for loop over \<^verbatim>\<open>getChildNodes()\<close>, the child list, is a fold with the running
  count.
\<close>

fun getNumNodes :: "(SimpleSTRnode3d \<Rightarrow> bool) \<Rightarrow> SimpleSTRnode3d \<Rightarrow> 64 word" where
  "getNumNodes leaf (SimpleSTRnode3d a cs it b l) =
     (if leaf (SimpleSTRnode3d a cs it b l) then 1
      else fold (\<lambda>node count. count + getNumNodes leaf node) cs 1)"

fun getNumLeafNodes :: "(SimpleSTRnode3d \<Rightarrow> bool) \<Rightarrow> SimpleSTRnode3d \<Rightarrow> 64 word" where
  "getNumLeafNodes leaf (SimpleSTRnode3d a cs it b l) =
     fold (\<lambda>node count. count + getNumLeafNodes leaf node) cs
       (if leaf (SimpleSTRnode3d a cs it b l) then 1 else 0)"

text \<open>
  \<^verbatim>\<open>removeItem\<close> and \<^verbatim>\<open>removeChild\<close>, SimpleSTRnode3d.cpp lines 75-97. The loop moves
  an iterator from \<^verbatim>\<open>begin()\<close> to the first child that passes the test
  (\<open>first_match\<close>, the iterator as an index); \<^verbatim>\<open>childNodes.erase(it)\<close> removes the
  entry at that index (\<open>erase\<close>). The model returns the bool and the node as it is
  afterwards.
\<close>

fun first_match :: "('a \<Rightarrow> bool) \<Rightarrow> 'a list \<Rightarrow> nat \<Rightarrow> nat option" where
  "first_match P [] i = None"
| "first_match P (c # cs) i = (if P c then Some i else first_match P cs (Suc i))"

definition erase :: "'a list \<Rightarrow> nat \<Rightarrow> 'a list" where
  "erase xs i = take i xs @ drop (Suc i) xs"

fun removeItem :: "SimpleSTRnode3d \<Rightarrow> ptr \<Rightarrow> bool \<times> SimpleSTRnode3d" where
  "removeItem (SimpleSTRnode3d a cs it b l) itemToRemove =
     (case first_match (\<lambda>c. getItem c = itemToRemove) cs 0 of
        Some i \<Rightarrow> (True, SimpleSTRnode3d a (erase cs i) it b l)
      | None \<Rightarrow> (False, SimpleSTRnode3d a cs it b l))"

fun removeChild :: "SimpleSTRnode3d \<Rightarrow> ptr \<Rightarrow> bool \<times> SimpleSTRnode3d" where
  "removeChild (SimpleSTRnode3d a cs it b l) child =
     (case first_match (\<lambda>c. addr c = child) cs 0 of
        Some i \<Rightarrow> (True, SimpleSTRnode3d a (erase cs i) it b l)
      | None \<Rightarrow> (False, SimpleSTRnode3d a cs it b l))"

text \<open>All the nodes of the subtree rooted at a node, the node first.\<close>

fun subtree :: "SimpleSTRnode3d \<Rightarrow> SimpleSTRnode3d list" where
  "subtree (SimpleSTRnode3d a cs it b l) =
     SimpleSTRnode3d a cs it b l # concat (map subtree cs)"

text \<open>No node of the subtree that passes the leaf test has children.\<close>

definition leaves_childless :: "(SimpleSTRnode3d \<Rightarrow> bool) \<Rightarrow> SimpleSTRnode3d \<Rightarrow> bool" where
  "leaves_childless leaf n = list_all (\<lambda>m. \<not> (leaf m \<and> childNodes m \<noteq> [])) (subtree n)"

text \<open>The bounds of a node cover the envelope of every child whose envelope is not null.\<close>

definition covers_children :: "SimpleSTRnode3d \<Rightarrow> bool" where
  "covers_children n =
     list_all (\<lambda>k. isNull (getEnvelope k) \<or> covers (bounds n) (getEnvelope k)) (childNodes n)"

section \<open>SimpleSTRtree\<close>

text \<open>
  The members of the class SimpleSTRtree, SimpleSTRtree.h lines 66-213, and its inline
  member functions, lines 147-178. The classes of the two-dimensional node and envelope
  (\<^verbatim>\<open>SimpleSTRnode\<close>, \<^verbatim>\<open>geom::Envelope\<close>) are not among the sources: they are the type
  parameters \<open>'n\<close> and \<open>'e\<close>, and the node's \<^verbatim>\<open>getNumLeafNodes\<close> is a parameter.
  \<open>nodes\<close> and \<open>nodes3d\<close> are the vectors of node pointers; the deques behind them
  only store the nodes. \<open>nodeCapacity\<close> is a \<^verbatim>\<open>std::size_t\<close>.
\<close>

record 'n SimpleSTRtree =
  nodes :: "'n list"
  nodes3d :: "SimpleSTRnode3d list"
  nodeCapacity :: "64 word"
  built :: bool
  root :: "'n option"
  root3d :: "SimpleSTRnode3d option"

text \<open>
  The constructor, lines 147-151. Its initialiser list sets \<open>nodeCapacity\<close>, \<open>built\<close>
  and \<open>root\<close>; the containers start empty; \<open>root3d\<close> is not initialised, so what it
  holds is not determined by the constructor and is the second argument here.
\<close>

definition new_SimpleSTRtree :: "64 word \<Rightarrow> SimpleSTRnode3d option \<Rightarrow> 'n SimpleSTRtree" where
  "new_SimpleSTRtree capacity indeterminate =
     \<lparr>nodes = [], nodes3d = [], nodeCapacity = capacity, built = False, root = None,
      root3d = indeterminate\<rparr>"

definition getNodeCapacity :: "'n SimpleSTRtree \<Rightarrow> 64 word" where
  "getNodeCapacity t = nodeCapacity t"

definition getBuilt :: "'n SimpleSTRtree \<Rightarrow> bool" where
  "getBuilt t = built t"

definition tree_getNumLeafNodes :: "('n \<Rightarrow> 64 word) \<Rightarrow> 'n SimpleSTRtree \<Rightarrow> 64 word" where
  "tree_getNumLeafNodes node_getNumLeafNodes t =
     (case root t of None \<Rightarrow> 0 | Some r \<Rightarrow> node_getNumLeafNodes r)"

subsection \<open>The operations of the tree\<close>

text \<open>
  Modelled from the spec: the member functions \<^verbatim>\<open>insert\<close>, \<^verbatim>\<open>build\<close>, \<^verbatim>\<open>build3d\<close>,
  \<^verbatim>\<open>query\<close>, \<^verbatim>\<open>remove\<close>, \<^verbatim>\<open>iterate\<close>, \<^verbatim>\<open>nearestNeighbour\<close> and \<^verbatim>\<open>isWithinDistance\<close>
  are declared in SimpleSTRtree.h and defined in SimpleSTRtree.cpp, which is not among
  the sources. What they do to the tree is modelled after the spec:
  \<^item> section 2: "Insert operations append leaf nodes to the arena and are only legal
    before build. The first query, getRoot, or nearest-neighbor call triggers lazy
    construction via the Packing Builder; afterward the tree is logically immutable
    (removal is the sole exception, and it does not reclaim arena storage)";
  \<^item> section 3: the tree "transitions to built exactly once, at which point root
    becomes non-null (or the tree stays rootless if zero items were inserted)";
  \<^item> section 4.3: "Building twice is a no-op guarded by the built flag";
  \<^item> section 4.5: \<^verbatim>\<open>isWithinDistance\<close> is the "same branch-and-bound search" as the
    nearest-neighbour search;
  \<^item> section 4.6: removal "descends from the root" and changes child lists only;
  \<^item> section 7: "Insert after build: a programming-contract violation".

  The code that works on the nodes is absent as well and is a parameter: the making of a
  leaf node, the Packing Builder (given the node capacity and a non-empty list of leaves
  it returns the root), and the removal of an item below a root node.
\<close>

record ('n, 'e) node_code =
  createNode :: "'e \<Rightarrow> ptr \<Rightarrow> 'n"
  createNode3d :: "Envelope3d \<Rightarrow> ptr \<Rightarrow> SimpleSTRnode3d"
  packing_builder :: "64 word \<Rightarrow> 'n list \<Rightarrow> 'n"
  packing_builder3d :: "64 word \<Rightarrow> SimpleSTRnode3d list \<Rightarrow> SimpleSTRnode3d"
  remove_below :: "'e \<Rightarrow> ptr \<Rightarrow> 'n \<Rightarrow> bool \<times> 'n"

datatype contract_violation = insert_after_build

definition tree_insert ::
    "('n, 'e) node_code \<Rightarrow> 'n SimpleSTRtree \<Rightarrow> 'e \<Rightarrow> ptr \<Rightarrow> contract_violation + 'n SimpleSTRtree" where
  "tree_insert P t itemEnv itm =
     (if built t then Inl insert_after_build
      else Inr (t\<lparr>nodes := nodes t @ [createNode P itemEnv itm]\<rparr>))"

definition tree_insert3d ::
    "('n, 'e) node_code \<Rightarrow> 'n SimpleSTRtree \<Rightarrow> Envelope3d \<Rightarrow> ptr \<Rightarrow> contract_violation + 'n SimpleSTRtree" where
  "tree_insert3d P t itemEnv itm =
     (if built t then Inl insert_after_build
      else Inr (t\<lparr>nodes3d := nodes3d t @ [createNode3d P itemEnv itm]\<rparr>))"

definition build :: "('n, 'e) node_code \<Rightarrow> 'n SimpleSTRtree \<Rightarrow> 'n SimpleSTRtree" where
  "build P t =
     (if built t then t
      else t\<lparr>root := (if nodes t = [] then None
                       else Some (packing_builder P (nodeCapacity t) (nodes t))),
             built := True\<rparr>)"

definition build3d :: "('n, 'e) node_code \<Rightarrow> 'n SimpleSTRtree \<Rightarrow> 'n SimpleSTRtree" where
  "build3d P t =
     (if built t then t
      else t\<lparr>root3d := (if nodes3d t = [] then None
                         else Some (packing_builder3d P (nodeCapacity t) (nodes3d t))),
             built := True\<rparr>)"

text \<open>
  \<^verbatim>\<open>getRoot\<close> and \<^verbatim>\<open>getRoot3d\<close>, SimpleSTRtree.h lines 170-178: build, then return the
  root. The model returns the root and the tree as it is afterwards.
\<close>

definition getRoot :: "('n, 'e) node_code \<Rightarrow> 'n SimpleSTRtree \<Rightarrow> 'n option \<times> 'n SimpleSTRtree" where
  "getRoot P t = (let t' = build P t in (root t', t'))"

definition getRoot3d ::
    "('n, 'e) node_code \<Rightarrow> 'n SimpleSTRtree \<Rightarrow> SimpleSTRnode3d option \<times> 'n SimpleSTRtree" where
  "getRoot3d P t = (let t' = build3d P t in (root3d t', t'))"

definition tree_remove ::
    "('n, 'e) node_code \<Rightarrow> 'n SimpleSTRtree \<Rightarrow> 'e \<Rightarrow> ptr \<Rightarrow> bool \<times> 'n SimpleSTRtree" where
  "tree_remove P t searchBounds itm =
     (case root t of
        None \<Rightarrow> (False, t)
      | Some r \<Rightarrow>
          (let (found, r') = remove_below P searchBounds itm r
           in (found, t\<lparr>root := Some r'\<rparr>)))"

text \<open>
  The public operations of the tree, and the tree after each. The searches and the
  accessors return values that are left out here; the searches build the tree first.
\<close>

datatype 'e operation =
    Insert 'e ptr
  | Insert3d Envelope3d ptr
  | Query 'e
  | Remove 'e ptr
  | Iterate
  | NearestNeighbour
  | IsWithinDistance
  | GetRoot
  | GetRoot3d
  | GetNodeCapacity
  | GetNumLeafNodes
  | GetBuilt

fun step ::
    "('n, 'e) node_code \<Rightarrow> 'n SimpleSTRtree \<Rightarrow> 'e operation \<Rightarrow> contract_violation + 'n SimpleSTRtree" where
  "step P t (Insert itemEnv itm) = tree_insert P t itemEnv itm"
| "step P t (Insert3d itemEnv itm) = tree_insert3d P t itemEnv itm"
| "step P t (Query searchEnv) = Inr (build P t)"
| "step P t (Remove searchBounds itm) = Inr (snd (tree_remove P t searchBounds itm))"
| "step P t Iterate = Inr t"
| "step P t NearestNeighbour = Inr (build P t)"
| "step P t IsWithinDistance = Inr (build P t)"
| "step P t GetRoot = Inr (snd (getRoot P t))"
| "step P t GetRoot3d = Inr (snd (getRoot3d P t))"
| "step P t GetNodeCapacity = Inr t"
| "step P t GetNumLeafNodes = Inr t"
| "step P t GetBuilt = Inr t"

fun run ::
    "('n, 'e) node_code \<Rightarrow> 'n SimpleSTRtree \<Rightarrow> 'e operation list \<Rightarrow> contract_violation + 'n SimpleSTRtree" where
  "run P t [] = Inr t"
| "run P t (c # cs) = (case step P t c of Inl v \<Rightarrow> Inl v | Inr t' \<Rightarrow> run P t' cs)"

text \<open>
  A sequence of operations keeps the contract when no insertion comes after an operation
  that builds the tree; \<open>b\<close> says whether the tree is built already.
\<close>

fun builds :: "'e operation \<Rightarrow> bool" where
  "builds (Query searchEnv) = True"
| "builds NearestNeighbour = True"
| "builds IsWithinDistance = True"
| "builds GetRoot = True"
| "builds GetRoot3d = True"
| "builds _ = False"

fun inserts :: "'e operation \<Rightarrow> bool" where
  "inserts (Insert itemEnv itm) = True"
| "inserts (Insert3d itemEnv itm) = True"
| "inserts _ = False"

fun keeps_contract :: "bool \<Rightarrow> 'e operation list \<Rightarrow> bool" where
  "keeps_contract b [] = True"
| "keeps_contract b (c # cs) =
     (if inserts c then \<not> b \<and> keeps_contract b cs else keeps_contract (b \<or> builds c) cs)"

section \<open>The textual form of an envelope\<close>

subsection \<open>Positions in a string\<close>

text \<open>
  A \<^verbatim>\<open>std::string\<close> is a list of characters. A \<^verbatim>\<open>size_type\<close> value is a position or
  count, or \<^verbatim>\<open>npos\<close>, the largest \<^verbatim>\<open>size_type\<close>, which no string reaches; \<^verbatim>\<open>npos\<close> is
  \<open>None\<close>. What the code computes with such values is written out where \<^verbatim>\<open>npos\<close> or
  a wrap-around is involved: \<^verbatim>\<open>npos + 1\<close> is 0, and a count that wraps below zero or
  is taken from \<^verbatim>\<open>npos\<close> is larger than any string (\<open>None\<close> as a count).

  The two failures of this code: \<^verbatim>\<open>substr\<close> throws \<^verbatim>\<open>std::out_of_range\<close> when its
  position lies beyond the end of the string, and \<^verbatim>\<open>values[i]\<close> on a vector with at
  most \<open>i\<close> elements reads past its end (undefined behaviour).
\<close>

datatype error = out_of_range | out_of_bounds_read

fun first_index :: "('a \<Rightarrow> bool) \<Rightarrow> 'a list \<Rightarrow> nat option" where
  "first_index P [] = None"
| "first_index P (x # xs) = (if P x then Some 0 else map_option Suc (first_index P xs))"

text \<open>The first position from \<open>pos\<close> on whose character passes the test, or \<^verbatim>\<open>npos\<close>.\<close>

definition find_from :: "(char \<Rightarrow> bool) \<Rightarrow> string \<Rightarrow> nat option \<Rightarrow> nat option" where
  "find_from P str pos =
     (case pos of None \<Rightarrow> None
      | Some p \<Rightarrow> map_option (\<lambda>i. p + i) (first_index P (drop p str)))"

text \<open>\<^verbatim>\<open>str.find(c)\<close>, \<^verbatim>\<open>str.find_first_of(delimiters, pos)\<close> and
  \<^verbatim>\<open>str.find_first_not_of(delimiters, pos)\<close>.\<close>

definition find_char :: "string \<Rightarrow> char \<Rightarrow> nat option" where
  "find_char str c = find_from (\<lambda>x. x = c) str (Some 0)"

definition find_first_of :: "string \<Rightarrow> string \<Rightarrow> nat option \<Rightarrow> nat option" where
  "find_first_of str delimiters pos = find_from (\<lambda>c. c \<in> set delimiters) str pos"

definition find_first_not_of :: "string \<Rightarrow> string \<Rightarrow> nat option \<Rightarrow> nat option" where
  "find_first_not_of str delimiters pos = find_from (\<lambda>c. c \<notin> set delimiters) str pos"

text \<open>\<^verbatim>\<open>str.substr(pos, count)\<close>.\<close>

definition substr :: "string \<Rightarrow> nat option \<Rightarrow> nat option \<Rightarrow> error + string" where
  "substr str pos count =
     (case pos of None \<Rightarrow> Inl out_of_range
      | Some p \<Rightarrow>
          if length str < p then Inl out_of_range
          else Inr (case count of None \<Rightarrow> drop p str | Some n \<Rightarrow> take n (drop p str)))"

text \<open>The count \<^verbatim>\<open>pos - lastPos\<close> in \<^verbatim>\<open>size_type\<close> arithmetic.\<close>

definition size_sub :: "nat option \<Rightarrow> nat option \<Rightarrow> nat option" where
  "size_sub pos lastPos =
     (case (pos, lastPos) of
        (Some p, Some l) \<Rightarrow> if l \<le> p then Some (p - l) else None
      | (None, Some l) \<Rightarrow> None
      | (Some p, None) \<Rightarrow> Some (p + 1)
      | (None, None) \<Rightarrow> Some 0)"

subsection \<open>Envelope3d::split\<close>

lemma first_index_SomeD: "first_index P xs = Some i \<Longrightarrow> i < length xs \<and> P (xs ! i)"
proof (induction xs arbitrary: i)
  case Nil
  then show ?case by simp
next
  case (Cons x xs)
  then show ?case by (cases "P x") (auto simp: nth_Cons')
qed

lemma find_from_SomeD:
  "find_from P str (Some p) = Some q \<Longrightarrow> p \<le> q \<and> q < length str \<and> P (str ! q)"
  by (auto simp: find_from_def dest!: first_index_SomeD)

text \<open>
  \<^verbatim>\<open>Envelope3d::split\<close>, Envelope3d.cpp lines 182-204. \<open>split_loop\<close> is the while loop
  with its variables \<open>lastPos\<close>, \<open>pos\<close> and \<open>tokens\<close>. It terminates because \<open>pos\<close>
  moves forward in every round: the next \<open>lastPos\<close> is not before \<open>pos\<close> and stands on
  a non-delimiter, the next \<open>pos\<close> is not before that and stands on a delimiter.
\<close>

function split_loop :: "string \<Rightarrow> string \<Rightarrow> nat option \<Rightarrow> nat option \<Rightarrow> string list \<Rightarrow> error + string list" where
  "split_loop str delimiters lastPos pos tokens =
     (if None \<noteq> pos \<or> None \<noteq> lastPos then
        (case substr str lastPos (size_sub pos lastPos) of
           Inl e \<Rightarrow> Inl e
         | Inr token \<Rightarrow>
             split_loop str delimiters
               (find_first_not_of str delimiters pos)
               (find_first_of str delimiters (find_first_not_of str delimiters pos))
               (tokens @ [token]))
      else Inr tokens)"
  by pat_completeness auto

termination
proof (relation "measure (\<lambda>(str, delimiters, lastPos, pos, tokens).
          (case pos of None \<Rightarrow> (case lastPos of None \<Rightarrow> 0 | Some l \<Rightarrow> 1)
           | Some p \<Rightarrow> 2 + (length str - p)))", goal_cases)
  case 1
  then show ?case by simp
next
  case (2 str delimiters lastPos pos tokens x2)
  show ?case
  proof (cases pos)
    case None
    with 2 show ?thesis
      by (auto simp: find_first_not_of_def find_first_of_def find_from_def split: option.splits)
  next
    case (Some p)
    show ?thesis
    proof (cases "find_first_not_of str delimiters pos")
      case None
      then show ?thesis using Some by (simp add: find_first_of_def find_from_def)
    next
      case l: (Some l)
      from find_from_SomeD[OF l[unfolded find_first_not_of_def Some]]
      have pl: "p \<le> l" "l < length str" "str ! l \<notin> set delimiters" by simp_all
      show ?thesis
      proof (cases "find_first_of str delimiters (Some l)")
        case None
        then show ?thesis using Some l by simp
      next
        case q: (Some q)
        from find_from_SomeD[OF q[unfolded find_first_of_def]]
        have "l \<le> q" "q < length str" "str ! q \<in> set delimiters" by simp_all
        with pl have "p < q" by (cases "l = q") auto
        with \<open>q < length str\<close> show ?thesis using Some l q by simp
      qed
    qed
  qed
qed

declare split_loop.simps [simp del]

definition split :: "string \<Rightarrow> string \<Rightarrow> error + string list" where
  "split str delimiters =
     split_loop str delimiters (Some 0) (find_first_of str delimiters (Some 0)) []"

subsection \<open>Numbers as text\<close>

text \<open>
  The conversions between doubles and text are the C library's \<^verbatim>\<open>strtod\<close> and the
  stream's \<^verbatim>\<open>operator<<(double)\<close>, not code of this repository. \<open>operator_out\<close> and
  \<open>Envelope3d_of_string\<close> below take them as parameters. \<open>strtod\<close> and \<open>put_double\<close>
  are their behaviour on decimal text after the C and C++ standards, over the doubles of
  this model (numbers as reals, no infinities, no hexadecimal form).

  \<open>strtod\<close> skips white space, reads an optional sign, then \<^verbatim>\<open>nan\<close> or the longest
  decimal number with an optional fraction and exponent, and ignores whatever follows.
  Where no number can be read it returns 0. It has no way to report a failure other
  than \<^verbatim>\<open>errno\<close> and the end pointer, which this code passes as \<^verbatim>\<open>nullptr\<close>.
\<close>

definition is_space :: "char \<Rightarrow> bool" where
  "is_space c = (c \<in> set [CHR '' '', CHR 0x09, CHR 0x0A, CHR 0x0B, CHR 0x0C, CHR 0x0D])"

definition is_digit :: "char \<Rightarrow> bool" where
  "is_digit c = (c \<in> set ''0123456789'')"

definition digit_value :: "char \<Rightarrow> nat" where
  "digit_value c = length (takeWhile (\<lambda>d. d \<noteq> c) ''0123456789'')"

definition digits_value :: "string \<Rightarrow> nat" where
  "digits_value ds = foldl (\<lambda>a c. 10 * a + digit_value c) 0 ds"

definition scale10 :: "real \<Rightarrow> int \<Rightarrow> real" where
  "scale10 x k = (if 0 \<le> k then x * 10 ^ nat k else x / 10 ^ nat (- k))"

definition take_sign :: "string \<Rightarrow> bool \<times> string" where
  "take_sign s =
     (case s of
        c # r \<Rightarrow> if c = CHR ''-'' then (True, r) else if c = CHR ''+'' then (False, r) else (False, s)
      | [] \<Rightarrow> (False, s))"

definition exponent_part :: "string \<Rightarrow> int" where
  "exponent_part s =
     (case s of
        c # r \<Rightarrow>
          if c = CHR ''e'' \<or> c = CHR ''E'' then
            (let (neg, r1) = take_sign r; ds = takeWhile is_digit r1
             in if ds = [] then 0
                else if neg then - int (digits_value ds) else int (digits_value ds))
          else 0
      | [] \<Rightarrow> 0)"

definition nan_prefix :: "string \<Rightarrow> bool" where
  "nan_prefix s =
     (case s of
        a # b # c # r \<Rightarrow>
          (a = CHR ''n'' \<or> a = CHR ''N'') \<and> (b = CHR ''a'' \<or> b = CHR ''A'') \<and>
          (c = CHR ''n'' \<or> c = CHR ''N'')
      | _ \<Rightarrow> False)"

definition strtod :: "string \<Rightarrow> double" where
  "strtod nptr =
     (let (neg, s1) = take_sign (dropWhile is_space nptr) in
      if nan_prefix s1 then NaN
      else
        let ip = takeWhile is_digit s1; s2 = dropWhile is_digit s1;
            (fp, s3) = (case s2 of
                          c # r \<Rightarrow> if c = CHR ''.'' then (takeWhile is_digit r, dropWhile is_digit r)
                                   else ([], s2)
                        | [] \<Rightarrow> ([], s2))
        in if ip = [] \<and> fp = [] then Fin 0
           else
             let v = scale10 (real (digits_value (ip @ fp))) (exponent_part s3 - int (length fp))
             in Fin (if neg then - v else v))"

text \<open>
  \<open>put_double\<close> is \<^verbatim>\<open>os << d\<close> on a stream in its default state: the \<^verbatim>\<open>%g\<close> conversion
  with precision 6. The number is rounded to 6 significant digits, to even on a tie;
  with decimal exponent \<open>X\<close> after rounding, the fixed form is used when \<open>-4 \<le> X < 6\<close>
  and the form with an exponent of at least two digits otherwise; trailing zeros of the
  fraction are dropped, and the point with them when nothing remains.
\<close>

definition digit_char :: "nat \<Rightarrow> char" where
  "digit_char n = ''0123456789'' ! n"

fun show_nat :: "nat \<Rightarrow> string" where
  "show_nat n = (if n < 10 then [digit_char n] else show_nat (n div 10) @ [digit_char (n mod 10)])"

declare show_nat.simps [simp del]

definition with_fraction :: "string \<Rightarrow> string \<Rightarrow> string" where
  "with_fraction ip fr =
     (let f = rev (dropWhile (\<lambda>c. c = CHR ''0'') (rev fr))
      in if f = [] then ip else ip @ CHR ''.'' # f)"

text \<open>
  The decimal exponent of \<open>x > 0\<close>, found by dividing or multiplying by 10; the
  doubles other than 0 lie between 10 to the power -324 and 10 to the power 309 in
  absolute value, so 400 steps reach every one.
\<close>

fun exp_ge1 :: "nat \<Rightarrow> real \<Rightarrow> nat" where
  "exp_ge1 fuel x = (if fuel = 0 \<or> x < 10 then 0 else Suc (exp_ge1 (fuel - 1) (x / 10)))"

fun exp_lt1 :: "nat \<Rightarrow> real \<Rightarrow> nat" where
  "exp_lt1 fuel x = (if fuel = 0 \<or> 1 \<le> x then 0 else Suc (exp_lt1 (fuel - 1) (x * 10)))"

declare exp_ge1.simps [simp del] exp_lt1.simps [simp del]

definition decimal_exponent :: "real \<Rightarrow> int" where
  "decimal_exponent x = (if 1 \<le> x then int (exp_ge1 400 x) else - int (exp_lt1 400 x))"

definition round_half_even :: "real \<Rightarrow> int" where
  "round_half_even r =
     (let f = \<lfloor>r\<rfloor>; d = r - of_int f
      in if d < 1 / 2 then f else if 1 / 2 < d then f + 1 else if even f then f else f + 1)"

definition put_positive :: "real \<Rightarrow> string" where
  "put_positive x =
     (let e0 = decimal_exponent x;
          m0 = nat (round_half_even (scale10 x (5 - e0)));
          m = (if m0 = 1000000 then 100000 else m0);
          X = (if m0 = 1000000 then e0 + 1 else e0);
          ds = show_nat m
      in if X < - 4 \<or> 6 \<le> X then
           with_fraction (take 1 ds) (drop 1 ds) @ CHR ''e'' # (if X < 0 then CHR ''-'' else CHR ''+'') #
             (let a = show_nat (nat \<bar>X\<bar>) in if length a < 2 then CHR ''0'' # a else a)
         else if 0 \<le> X then with_fraction (take (nat X + 1) ds) (drop (nat X + 1) ds)
         else with_fraction ''0'' (replicate (nat (- X - 1)) CHR ''0'' @ ds))"

definition put_double :: "double \<Rightarrow> string" where
  "put_double d =
     (case d of
        NaN \<Rightarrow> ''nan''
      | Fin x \<Rightarrow> if x = 0 then ''0'' else if x < 0 then CHR ''-'' # put_positive (- x) else put_positive x)"

subsection \<open>Writing and reading an envelope\<close>

text \<open>
  \<^verbatim>\<open>operator<<(std::ostream&, const Envelope3d&)\<close>, Envelope3d.cpp lines 144-152; \<open>put\<close>
  is how the stream writes a double. \<^verbatim>\<open>Envelope3d::toString\<close>, lines 155-162, writes to a
  fresh \<^verbatim>\<open>std::ostringstream\<close>, which is in the default state.
\<close>

definition operator_out :: "(double \<Rightarrow> string) \<Rightarrow> Envelope3d \<Rightarrow> string" where
  "operator_out put o_env =
     ''Env['' @ put (minx o_env) @ '':'' @ put (maxx o_env) @ '','' @
     put (miny o_env) @ '':'' @ put (maxy o_env) @ '','' @
     put (minz o_env) @ '':'' @ put (maxz o_env) @ '']''"

definition toString :: "Envelope3d \<Rightarrow> string" where
  "toString e = operator_out put_double e"

text \<open>
  \<^verbatim>\<open>Envelope3d::Envelope3d(const std::string&)\<close>, Envelope3d.cpp lines 94-114; \<open>conv\<close> is
  \<^verbatim>\<open>strtod(s.c_str(), nullptr)\<close>. \<^verbatim>\<open>index + 1\<close> is 0 when no \<^verbatim>\<open>[\<close> is found, and the
  count \<^verbatim>\<open>str.size() - 1 - 1\<close> wraps for a string shorter than 2.
\<close>

definition Envelope3d_of_string :: "(string \<Rightarrow> double) \<Rightarrow> string \<Rightarrow> error + Envelope3d" where
  "Envelope3d_of_string conv str =
     (let index = find_char str CHR ''['';
          start = (case index of None \<Rightarrow> 0 | Some i \<Rightarrow> i + 1);
          count = (if length str < 2 then None else Some (length str - 2))
      in case substr str (Some start) count of
           Inl e \<Rightarrow> Inl e
         | Inr coordString \<Rightarrow>
             (case split coordString '':,'' of
                Inl e \<Rightarrow> Inl e
              | Inr values \<Rightarrow>
                  if length values < 6 then Inl out_of_bounds_read
                  else Inr (init (conv (values ! 0)) (conv (values ! 1)) (conv (values ! 2))
                                 (conv (values ! 3)) (conv (values ! 4)) (conv (values ! 5)))))"

text \<open>The value of \<open>coordString\<close> in the constructor: the text after the first \<^verbatim>\<open>[\<close>.\<close>

definition coordString_of :: "string \<Rightarrow> string" where
  "coordString_of str =
     (let start = (case find_char str CHR ''['' of None \<Rightarrow> 0 | Some i \<Rightarrow> i + 1)
      in if length str < 2 then drop start str else take (length str - 2) (drop start str))"

text \<open>Tokens, each followed by its delimiter, and a final token.\<close>

fun join_tokens :: "(string \<times> char) list \<Rightarrow> string \<Rightarrow> string" where
  "join_tokens [] final = final"
| "join_tokens ((t, d) # r) final = t @ d # join_tokens r final"

section \<open>Concrete inputs\<close>

text \<open>The inputs at which the theorems below are instantiated.\<close>

definition cube :: "real \<Rightarrow> real \<Rightarrow> Envelope3d" where
  "cube lo hi = \<lparr>minx = Fin lo, maxx = Fin hi, miny = Fin lo, maxy = Fin hi, minz = Fin lo, maxz = Fin hi\<rparr>"

definition null_env :: Envelope3d where
  "null_env = \<lparr>minx = NaN, maxx = NaN, miny = NaN, maxy = NaN, minz = NaN, maxz = NaN\<rparr>"

definition leaf_A :: SimpleSTRnode3d where
  "leaf_A = SimpleSTRnode3d 101 [] 1 (cube 0 1) 0"

definition leaf_B :: SimpleSTRnode3d where
  "leaf_B = SimpleSTRnode3d 102 [] 2 (cube 5 6) 0"

definition parent_AB :: SimpleSTRnode3d where
  "parent_AB = addChildNode3d (addChildNode3d (SimpleSTRnode3d 100 [] 0 null_env 1) leaf_A) leaf_B"

definition grandparent :: SimpleSTRnode3d where
  "grandparent = SimpleSTRnode3d 99 [parent_AB] 0 (cube 0 6) 2"

definition nan_axis_env :: Envelope3d where
  "nan_axis_env = expandBy (cube 0 1) (Fin 0) NaN (Fin 0)"

definition env_b6 :: Envelope3d where
  "env_b6 = \<lparr>minx = Fin 0, maxx = Fin 2, miny = Fin 5, maxy = Fin 6, minz = Fin 0, maxz = Fin 1\<rparr>"

definition leaf_N :: SimpleSTRnode3d where
  "leaf_N = SimpleSTRnode3d 103 [] 3 nan_axis_env 0"

definition parent_A :: SimpleSTRnode3d where
  "parent_A = addChildNode3d (SimpleSTRnode3d 100 [] 0 null_env 1) leaf_A"

text \<open>
  Stand-ins for the absent code on nodes, with the three-dimensional node and envelope
  in the place of the two-dimensional ones: a leaf as a node without children, one parent
  over all leaves as the root, and \<open>removeItem\<close> on the root.
\<close>

definition example_code :: "(SimpleSTRnode3d, Envelope3d) node_code" where
  "example_code =
     \<lparr>createNode = (\<lambda>e i. SimpleSTRnode3d i [] i e 0),
      createNode3d = (\<lambda>e i. SimpleSTRnode3d i [] i e 0),
      packing_builder = (\<lambda>capacity ns. SimpleSTRnode3d 0 ns 0 (minimal_cover (map bounds ns)) 1),
      packing_builder3d = (\<lambda>capacity ns. SimpleSTRnode3d 0 ns 0 (minimal_cover (map bounds ns)) 1),
      remove_below = (\<lambda>e i r. removeItem r i)\<rparr>"

definition example_calls :: "Envelope3d operation list" where
  "example_calls =
     [Insert (cube 0 1) 1, Insert3d (cube 5 6) 2, GetNodeCapacity, Query (cube 0 1),
      Remove (cube 0 1) 1, GetRoot3d, NearestNeighbour, GetNodeCapacity]"

definition env_w :: Envelope3d where
  "env_w = \<lparr>minx = Fin (- (5 / 2)), maxx = Fin 1000000, miny = Fin 0, maxy = Fin (1 / 2),
            minz = Fin 1, maxz = Fin 12\<rparr>"

definition env_big :: Envelope3d where
  "env_big = \<lparr>minx = Fin 0, maxx = Fin 1234567, miny = Fin 0, maxy = Fin 1,
              minz = Fin 0, maxz = Fin 1\<rparr>"

section \<open>Properties of Envelope3d\<close>

lemma env_inv_nonnull:
  assumes "env_inv e" and "\<not> isNull e"
  obtains x1 x2 y1 y2 z1 z2 where
    "e = \<lparr>minx = Fin x1, maxx = Fin x2, miny = Fin y1, maxy = Fin y2, minz = Fin z1, maxz = Fin z2\<rparr>"
    and "x1 \<le> x2" and "y1 \<le> y2" and "z1 \<le> z2"
proof -
  from assms have le: "le_d (minx e) (maxx e)" "le_d (miny e) (maxy e)" "le_d (minz e) (maxz e)"
    by (simp_all add: env_inv_def)
  from le(1) obtain x1 x2 where x: "minx e = Fin x1" "maxx e = Fin x2" "x1 \<le> x2"
    by (cases "minx e"; cases "maxx e") simp_all
  from le(2) obtain y1 y2 where y: "miny e = Fin y1" "maxy e = Fin y2" "y1 \<le> y2"
    by (cases "miny e"; cases "maxy e") simp_all
  from le(3) obtain z1 z2 where z: "minz e = Fin z1" "maxz e = Fin z2" "z1 \<le> z2"
    by (cases "minz e"; cases "maxz e") simp_all
  have "e = \<lparr>minx = Fin x1, maxx = Fin x2, miny = Fin y1, maxy = Fin y2, minz = Fin z1, maxz = Fin z2\<rparr>"
    using x y z by (cases e) simp
  then show thesis using x(3) y(3) z(3) that by blast
qed

lemma nan_free_Fin:
  assumes "nan_free e"
  obtains x1 x2 y1 y2 z1 z2 where
    "e = \<lparr>minx = Fin x1, maxx = Fin x2, miny = Fin y1, maxy = Fin y2, minz = Fin z1, maxz = Fin z2\<rparr>"
proof -
  from assms have n: "\<not> isnan (minx e)" "\<not> isnan (maxx e)" "\<not> isnan (miny e)"
    "\<not> isnan (maxy e)" "\<not> isnan (minz e)" "\<not> isnan (maxz e)"
    by (simp_all add: nan_free_def ordinates_def)
  obtain x1 where x1: "minx e = Fin x1" using n(1) by (cases "minx e") simp_all
  obtain x2 where x2: "maxx e = Fin x2" using n(2) by (cases "maxx e") simp_all
  obtain y1 where y1: "miny e = Fin y1" using n(3) by (cases "miny e") simp_all
  obtain y2 where y2: "maxy e = Fin y2" using n(4) by (cases "maxy e") simp_all
  obtain z1 where z1: "minz e = Fin z1" using n(5) by (cases "minz e") simp_all
  obtain z2 where z2: "maxz e = Fin z2" using n(6) by (cases "maxz e") simp_all
  have "e = \<lparr>minx = Fin x1, maxx = Fin x2, miny = Fin y1, maxy = Fin y2, minz = Fin z1, maxz = Fin z2\<rparr>"
    using x1 x2 y1 y2 z1 z2 by (cases e) simp
  then show thesis using that by blast
qed

lemma nan_free_not_null: "nan_free e \<Longrightarrow> \<not> isNull e"
  by (simp add: nan_free_def ordinates_def isNull_def)

lemma nan_axis_env_eq:
  "nan_axis_env = \<lparr>minx = Fin 0, maxx = Fin 1, miny = NaN, maxy = NaN, minz = Fin 0, maxz = Fin 1\<rparr>"
  by (simp add: nan_axis_env_def expandBy_def cube_def Let_def gt_d_def)

lemma env_num_cases:
  assumes "env_num e"
  obtains (null) "e = \<lparr>minx = NaN, maxx = NaN, miny = NaN, maxy = NaN, minz = NaN, maxz = NaN\<rparr>"
  | (box) x1 x2 y1 y2 z1 z2 where
    "e = \<lparr>minx = Fin x1, maxx = Fin x2, miny = Fin y1, maxy = Fin y2, minz = Fin z1, maxz = Fin z2\<rparr>"
proof (cases "isNull e")
  case True
  with assms have "e = \<lparr>minx = NaN, maxx = NaN, miny = NaN, maxy = NaN, minz = NaN, maxz = NaN\<rparr>"
    by (simp add: env_num_def setToNull_def)
  then show ?thesis by (rule null)
next
  case False
  with assms have "nan_free e" by (simp add: env_num_def)
  then show ?thesis using box by (rule nan_free_Fin)
qed

lemma env_num_cube: "env_num (cube lo hi)"
  by (simp add: env_num_def nan_free_def ordinates_def cube_def isNull_def)

lemma env_num_null_env: "env_num null_env"
  by (simp add: env_num_def null_env_def isNull_def setToNull_def)

lemma env_inv_cube: "lo \<le> hi \<Longrightarrow> env_inv (cube lo hi)"
  by (simp add: env_inv_def cube_def isNull_def)

lemma env_inv_null_env: "env_inv null_env"
  by (simp add: env_inv_def null_env_def isNull_def)

text \<open>
  Claim C10. \<^verbatim>\<open>expandBy\<close> subtracts each delta from the min and adds it to the max of
  its axis. If a min then exceeds its max on some axis, the result is the null
  envelope; otherwise it has exactly the moved extents. In both cases no axis of the
  result is left with its min above its max.
\<close>

theorem expandBy_moves_extents_or_nulls:
  "(let r = expandBy e dx dy dz;
        lox = sub_d (minx e) dx; hix = add_d (maxx e) dx;
        loy = sub_d (miny e) dy; hiy = add_d (maxy e) dy;
        loz = sub_d (minz e) dz; hiz = add_d (maxz e) dz
    in (if gt_d lox hix \<or> gt_d loy hiy \<or> gt_d loz hiz then isNull r \<and> r = setToNull e
        else r = \<lparr>minx = lox, maxx = hix, miny = loy, maxy = hiy, minz = loz, maxz = hiz\<rparr>)
       \<and> \<not> gt_d (minx r) (maxx r) \<and> \<not> gt_d (miny r) (maxy r) \<and> \<not> gt_d (minz r) (maxz r))"
  by (auto simp: expandBy_def Let_def setToNull_def isNull_def gt_d_def)

theorem expandBy_moves_extents_or_nulls_witness:
  "isNull (expandBy (cube 0 1) (Fin (- 1)) (Fin 0) (Fin 0)) \<and>
   expandBy (cube 0 1) (Fin 2) (Fin 0) (Fin 1) =
     \<lparr>minx = Fin (- 2), maxx = Fin 3, miny = Fin 0, maxy = Fin 1, minz = Fin (- 1), maxz = Fin 2\<rparr>"
  using expandBy_moves_extents_or_nulls[of "cube 0 1" "Fin (- 1)" "Fin 0" "Fin 0"]
    expandBy_moves_extents_or_nulls[of "cube 0 1" "Fin 2" "Fin 0" "Fin 1"]
  by (simp add: Let_def gt_d_def cube_def isNull_def setToNull_def)

text \<open>
  Claim C6, as amended. For every two envelopes, a null envelope is less than every
  non-null one and not less than a null one, a non-null envelope is not less than a
  null one, and no envelope is less than itself. Between envelopes made of numbers
  \<^verbatim>\<open>operator<\<close> is the lexicographic order on the tuple
  (minX, minY, minZ, maxX, maxY, maxZ).
\<close>

theorem operator_less_lexicographic:
  "(isNull a \<longrightarrow> operator_less a b = (\<not> isNull b))
   \<and> (\<not> isNull a \<and> isNull b \<longrightarrow> \<not> operator_less a b)
   \<and> \<not> operator_less a a
   \<and> (nan_free a \<and> nan_free b \<longrightarrow>
        operator_less a b = ((ordinates a, ordinates b) \<in> lexord {(x, y). lt_d x y}))"
proof -
  have irrefl: "\<not> operator_less a a"
    by (cases "minx a"; cases "miny a"; cases "minz a"; cases "maxx a"; cases "maxy a"; cases "maxz a")
       (simp_all add: operator_less_def gt_d_def isNull_def)
  have lex: "operator_less a b = ((ordinates a, ordinates b) \<in> lexord {(x, y). lt_d x y})"
    if fa: "nan_free a" and fb: "nan_free b"
  proof -
    from fa obtain a1 a2 a3 a4 a5 a6 where
      a: "a = \<lparr>minx = Fin a1, maxx = Fin a2, miny = Fin a3, maxy = Fin a4, minz = Fin a5, maxz = Fin a6\<rparr>"
      by (rule nan_free_Fin)
    from fb obtain b1 b2 b3 b4 b5 b6 where
      b: "b = \<lparr>minx = Fin b1, maxx = Fin b2, miny = Fin b3, maxy = Fin b4, minz = Fin b5, maxz = Fin b6\<rparr>"
      by (rule nan_free_Fin)
    show ?thesis
      unfolding a b by (auto simp: operator_less_def gt_d_def isNull_def ordinates_def)
  qed
  have "isNull a \<longrightarrow> operator_less a b = (\<not> isNull b)"
    and "\<not> isNull a \<and> isNull b \<longrightarrow> \<not> operator_less a b"
    by (simp_all add: operator_less_def)
  with irrefl lex show ?thesis by blast
qed

theorem operator_less_lexicographic_witness:
  "nan_free (cube 0 1) \<and> nan_free (cube 0 2) \<and> isNull null_env \<and>
   operator_less (cube 0 1) (cube 0 2) \<and> \<not> operator_less (cube 0 2) (cube 0 1) \<and>
   operator_less null_env (cube 0 1) \<and> \<not> operator_less (cube 0 1) null_env \<and>
   \<not> operator_less null_env null_env"
proof -
  have a: "nan_free (cube 0 1)" and b: "nan_free (cube 0 2)"
    by (simp_all add: nan_free_def ordinates_def cube_def)
  have n: "isNull null_env" by (simp add: null_env_def isNull_def)
  have na: "\<not> isNull (cube 0 1)" by (simp add: cube_def isNull_def)
  have 1: "operator_less (cube 0 1) (cube 0 2)"
    using operator_less_lexicographic[of "cube 0 1" "cube 0 2"] a b
    by (simp add: cube_def ordinates_def)
  have 2: "\<not> operator_less (cube 0 2) (cube 0 1)"
    using operator_less_lexicographic[of "cube 0 2" "cube 0 1"] a b
    by (simp add: cube_def ordinates_def)
  have 3: "operator_less null_env (cube 0 1)"
    using operator_less_lexicographic[of null_env "cube 0 1"] n na by blast
  have 4: "\<not> operator_less (cube 0 1) null_env"
    using operator_less_lexicographic[of "cube 0 1" null_env] n na by blast
  have 5: "\<not> operator_less null_env null_env"
    using operator_less_lexicographic[of null_env null_env] by blast
  from a b n 1 2 3 4 5 show ?thesis by blast
qed

text \<open>
  Against claim C6 as stated: \<^verbatim>\<open>expandBy\<close> with a NaN delta makes a non-null envelope
  with NaN on one axis. It is less than \<open>env_b6\<close>, although the two tuples first
  differ at minY, where neither ordinate is less than the other.
\<close>

theorem operator_less_nan_ordinate_counterexample:
  "expandBy (cube 0 1) (Fin 0) NaN (Fin 0) = nan_axis_env \<and>
   \<not> isNull nan_axis_env \<and> \<not> isNull env_b6 \<and>
   operator_less nan_axis_env env_b6 \<and>
   (ordinates nan_axis_env, ordinates env_b6) \<notin> lexord {(x, y). lt_d x y}"
  by (simp add: nan_axis_env_eq nan_axis_env_def[symmetric] env_b6_def isNull_def operator_less_def
      gt_d_def ordinates_def)

text \<open>
  Claim C4. On envelopes that satisfy the data-model invariant, \<^verbatim>\<open>intersection\<close>
  returns false and leaves \<open>result\<close> as it was exactly when one of the two is null or
  they are disjoint; otherwise it returns true and \<open>result\<close> has, on every axis, the
  larger of the two mins and the smaller of the two maxes.
\<close>

theorem intersection_overlap:
  assumes "env_inv a" and "env_inv b"
  shows "intersection a b r =
           (if isNull a \<or> isNull b \<or> disjoint a b then (False, r)
            else (True, \<lparr>minx = max_d (minx a) (minx b), maxx = min_d (maxx a) (maxx b),
                         miny = max_d (miny a) (miny b), maxy = min_d (maxy a) (maxy b),
                         minz = max_d (minz a) (minz b), maxz = min_d (maxz a) (maxz b)\<rparr>))"
proof (cases "isNull a \<or> isNull b")
  case True
  then show ?thesis by (auto simp: intersection_def)
next
  case False
  then have na: "\<not> isNull a" and nb: "\<not> isNull b" by simp_all
  from assms(1) na obtain a1 a2 a3 a4 a5 a6 where
    a: "a = \<lparr>minx = Fin a1, maxx = Fin a2, miny = Fin a3, maxy = Fin a4, minz = Fin a5, maxz = Fin a6\<rparr>"
    and al: "a1 \<le> a2" "a3 \<le> a4" "a5 \<le> a6"
    by (rule env_inv_nonnull)
  from assms(2) nb obtain b1 b2 b3 b4 b5 b6 where
    b: "b = \<lparr>minx = Fin b1, maxx = Fin b2, miny = Fin b3, maxy = Fin b4, minz = Fin b5, maxz = Fin b6\<rparr>"
    and bl: "b1 \<le> b2" "b3 \<le> b4" "b5 \<le> b6"
    by (rule env_inv_nonnull)
  show ?thesis
  proof (cases "disjoint a b")
    case True
    then have "\<not> intersects a b"
      unfolding a b by (auto simp: disjoint_def intersects_def ge_d_def)
    then show ?thesis using True by (simp add: intersection_def)
  next
    case d: False
    then have i: "intersects a b"
      unfolding a b by (auto simp: disjoint_def intersects_def ge_d_def)
    have "intersection a b r =
            (True, \<lparr>minx = max_d (minx a) (minx b), maxx = min_d (maxx a) (maxx b),
                    miny = max_d (miny a) (miny b), maxy = min_d (maxy a) (maxy b),
                    minz = max_d (minz a) (minz b), maxz = min_d (maxz a) (maxz b)\<rparr>)"
      using i al bl unfolding a b
      by (simp add: intersection_def isNull_def Let_def init_def gt_d_def intersects_def
            ge_d_def max_def min_def)
    then show ?thesis using d na nb by simp
  qed
qed

theorem intersection_overlap_witness:
  "env_inv (cube 0 2) \<and> env_inv (cube 1 3) \<and> env_inv (cube 5 6) \<and> env_inv null_env \<and>
   intersection (cube 0 2) (cube 1 3) null_env = (True, cube 1 2) \<and>
   intersection (cube 0 2) (cube 5 6) (cube 7 8) = (False, cube 7 8) \<and>
   intersection (cube 0 2) null_env (cube 7 8) = (False, cube 7 8)"
proof -
  have a: "env_inv (cube 0 2)" and b: "env_inv (cube 1 3)" and c: "env_inv (cube 5 6)"
    by (simp_all add: env_inv_cube)
  have n: "env_inv null_env" by (rule env_inv_null_env)
  have "intersection (cube 0 2) (cube 1 3) null_env = (True, cube 1 2)"
    using intersection_overlap[OF a b, of null_env]
    by (simp add: cube_def isNull_def disjoint_def)
  moreover have "intersection (cube 0 2) (cube 5 6) (cube 7 8) = (False, cube 7 8)"
    using intersection_overlap[OF a c, of "cube 7 8"]
    by (simp add: cube_def isNull_def disjoint_def)
  moreover have "intersection (cube 0 2) null_env (cube 7 8) = (False, cube 7 8)"
    using intersection_overlap[OF a n, of "cube 7 8"]
    by (simp add: null_env_def isNull_def)
  ultimately show ?thesis using a b c n by simp
qed

section \<open>Properties of SimpleSTRnode3d and SimpleSTRtree\<close>

lemma first_match_None: "first_match P cs i = None \<longleftrightarrow> (\<forall>c\<in>set cs. \<not> P c)"
  by (induction cs arbitrary: i) auto

lemma first_match_SomeI:
  "\<forall>p\<in>set pre. \<not> P p \<Longrightarrow> P c \<Longrightarrow> first_match P (pre @ c # post) i = Some (i + length pre)"
  by (induction pre arbitrary: i) simp_all

lemma first_match_SomeD:
  "first_match P cs i = Some j \<Longrightarrow>
     \<exists>pre c post. cs = pre @ c # post \<and> (\<forall>p\<in>set pre. \<not> P p) \<and> P c \<and> j = i + length pre"
proof (induction cs arbitrary: i)
  case Nil
  then show ?case by simp
next
  case (Cons x xs)
  show ?case
  proof (cases "P x")
    case True
    with Cons.prems have "j = i" by simp
    with True have "x # xs = [] @ x # xs \<and> (\<forall>p\<in>set []. \<not> P p) \<and> P x \<and> j = i + length ([] :: 'a list)"
      by simp
    then show ?thesis by blast
  next
    case False
    with Cons.prems have "first_match P xs (Suc i) = Some j" by simp
    from Cons.IH[OF this] obtain pre c post where
      h: "xs = pre @ c # post" "\<forall>p\<in>set pre. \<not> P p" "P c" "j = Suc i + length pre"
      by blast
    with False have "x # xs = (x # pre) @ c # post \<and> (\<forall>p\<in>set (x # pre). \<not> P p) \<and> P c \<and> j = i + length (x # pre)"
      by simp
    then show ?thesis by blast
  qed
qed

lemma erase_split: "erase (pre @ c # post) (length pre) = pre @ post"
  by (simp add: erase_def)

lemma parent_AB_eq:
  "parent_AB = SimpleSTRnode3d 100 [leaf_A, leaf_B] 0 (cube 0 6) 1"
  by (simp add: parent_AB_def leaf_A_def leaf_B_def null_env_def cube_def isNull_def getEnvelope_def
      expandToInclude_def gt_d_def)

text \<open>
  Claim C2. \<^verbatim>\<open>removeItem\<close> looks at the node's own children only, comparing each
  child's item pointer with the one given. If some child matches, the first such child
  is erased, the others stay as they are and in their order, and the result is true;
  if none matches the result is false and the node is unchanged.
\<close>

theorem removeItem_first_match:
  "(\<forall>pre c post. childNodes n = pre @ c # post \<and> (\<forall>p\<in>set pre. item p \<noteq> x) \<and> item c = x \<longrightarrow>
      removeItem n x = (True, SimpleSTRnode3d (addr n) (pre @ post) (item n) (bounds n) (level n)))
   \<and> ((\<forall>c\<in>set (childNodes n). item c \<noteq> x) \<longrightarrow> removeItem n x = (False, n))
   \<and> ((\<exists>c\<in>set (childNodes n). item c = x) \<longrightarrow> fst (removeItem n x))"
proof (cases n)
  case (SimpleSTRnode3d a cs it b l)
  have 1: "removeItem n x = (True, SimpleSTRnode3d (addr n) (pre @ post) (item n) (bounds n) (level n))"
    if "childNodes n = pre @ c # post" "\<forall>p\<in>set pre. item p \<noteq> x" "item c = x" for pre c post
  proof -
    have "first_match (\<lambda>c. getItem c = x) cs 0 = Some (0 + length pre)"
      using that SimpleSTRnode3d first_match_SomeI[of pre "\<lambda>c. getItem c = x" c post 0]
      by (simp add: getItem_def)
    then show ?thesis using that SimpleSTRnode3d by (simp add: erase_split)
  qed
  have 2: "removeItem n x = (False, n)" if "\<forall>c\<in>set (childNodes n). item c \<noteq> x"
  proof -
    have "first_match (\<lambda>c. getItem c = x) cs 0 = None"
      using that SimpleSTRnode3d by (simp add: first_match_None getItem_def)
    then show ?thesis using SimpleSTRnode3d by simp
  qed
  have 3: "fst (removeItem n x)" if "\<exists>c\<in>set (childNodes n). item c = x"
  proof -
    have "first_match (\<lambda>c. getItem c = x) cs 0 \<noteq> None"
      using that SimpleSTRnode3d by (simp add: first_match_None getItem_def)
    then show ?thesis using SimpleSTRnode3d by auto
  qed
  from 1 2 3 show ?thesis by blast
qed

theorem removeItem_first_match_witness:
  "removeItem parent_AB 2 = (True, SimpleSTRnode3d 100 [leaf_A] 0 (cube 0 6) 1)
   \<and> removeItem parent_AB 7 = (False, parent_AB)
   \<and> removeItem grandparent 2 = (False, grandparent)"
proof -
  have c: "childNodes parent_AB = [leaf_A] @ leaf_B # []" by (simp add: parent_AB_eq)
  have p: "\<forall>p\<in>set [leaf_A]. item p \<noteq> 2" by (simp add: leaf_A_def)
  have i: "item leaf_B = 2" by (simp add: leaf_B_def)
  have a: "\<forall>c\<in>set (childNodes parent_AB). item c \<noteq> 7"
    by (simp add: parent_AB_eq leaf_A_def leaf_B_def)
  have g: "\<forall>c\<in>set (childNodes grandparent). item c \<noteq> 2"
    by (simp add: grandparent_def parent_AB_eq)
  from removeItem_first_match[of parent_AB 2] c p i
  have "removeItem parent_AB 2 = (True, SimpleSTRnode3d (addr parent_AB) ([leaf_A] @ []) (item parent_AB) (bounds parent_AB) (level parent_AB))"
    by blast
  moreover from removeItem_first_match[of parent_AB 7] a
  have "removeItem parent_AB 7 = (False, parent_AB)" by blast
  moreover from removeItem_first_match[of grandparent 2] g
  have "removeItem grandparent 2 = (False, grandparent)" by blast
  ultimately show ?thesis by (simp add: parent_AB_eq)
qed

lemma removal_frame:
  assumes "r = (case first_match P cs 0 of
        Some i \<Rightarrow> (True, SimpleSTRnode3d a (erase cs i) it b l)
      | None \<Rightarrow> (False, SimpleSTRnode3d a cs it b l))"
  shows "bounds (snd r) = b \<and> level (snd r) = l \<and> item (snd r) = it \<and> addr (snd r) = a \<and>
         (if fst r then \<exists>pre c post. cs = pre @ c # post \<and> childNodes (snd r) = pre @ post
          else childNodes (snd r) = cs)"
proof (cases "first_match P cs 0")
  case None
  then show ?thesis using assms by simp
next
  case (Some i)
  from first_match_SomeD[OF this] obtain pre c post where
    h: "cs = pre @ c # post" "i = length pre" by auto
  then have "cs = pre @ c # post \<and> erase cs i = pre @ post" by (simp add: erase_split)
  then have "\<exists>pre c post. cs = pre @ c # post \<and> erase cs i = pre @ post" by blast
  then show ?thesis using assms Some by simp
qed

text \<open>
  Claim C8. \<^verbatim>\<open>removeItem\<close> and \<^verbatim>\<open>removeChild\<close> leave the node's bounds and level as
  they were. When they return true the child list has lost one entry and the remaining
  children keep their order; when they return false the child list is unchanged.
\<close>

theorem removal_keeps_bounds_level_order:
  "(let r = removeItem n x in
      bounds (snd r) = bounds n \<and> level (snd r) = level n \<and>
      (if fst r then \<exists>pre c post. childNodes n = pre @ c # post \<and> childNodes (snd r) = pre @ post
       else childNodes (snd r) = childNodes n))
   \<and> (let r = removeChild n p in
      bounds (snd r) = bounds n \<and> level (snd r) = level n \<and>
      (if fst r then \<exists>pre c post. childNodes n = pre @ c # post \<and> childNodes (snd r) = pre @ post
       else childNodes (snd r) = childNodes n))"
proof (cases n)
  case (SimpleSTRnode3d a cs it b l)
  show ?thesis
    unfolding Let_def SimpleSTRnode3d removeItem.simps removeChild.simps
    using removal_frame[OF refl, where P="\<lambda>c. getItem c = x" and cs=cs and a=a and it=it and b=b and l=l]
      removal_frame[OF refl, where P="\<lambda>c. addr c = p" and cs=cs and a=a and it=it and b=b and l=l]
    by simp
qed

theorem removal_keeps_bounds_level_order_witness:
  "fst (removeItem parent_AB 2) \<and> fst (removeChild parent_AB 101)
   \<and> bounds (snd (removeItem parent_AB 2)) = cube 0 6 \<and> level (snd (removeItem parent_AB 2)) = 1
   \<and> bounds (snd (removeChild parent_AB 101)) = cube 0 6 \<and> level (snd (removeChild parent_AB 101)) = 1"
  using removal_keeps_bounds_level_order[of parent_AB 2 101]
  by (simp add: Let_def parent_AB_eq leaf_A_def leaf_B_def getItem_def)

lemma fold_add_word: "fold (\<lambda>node count. count + f node) cs (k :: 64 word) = k + sum_list (map f cs)"
  by (induction cs arbitrary: k) (simp_all add: add.assoc)

lemma getNumNodes_eq:
  "getNumNodes leaf n = (if leaf n then 1 else 1 + sum_list (map (getNumNodes leaf) (childNodes n)))"
  by (cases n) (simp add: fold_add_word)

lemma getNumLeafNodes_eq:
  "getNumLeafNodes leaf n = (if leaf n then 1 else 0) + sum_list (map (getNumLeafNodes leaf) (childNodes n))"
  by (cases n) (simp add: fold_add_word)

lemma of_nat_sum_list: "(of_nat (sum_list (map f xs)) :: 64 word) = sum_list (map (\<lambda>x. of_nat (f x)) xs)"
  by (induction xs) simp_all

lemma getNumLeafNodes_count:
  "getNumLeafNodes leaf n = of_nat (length (filter leaf (subtree n)))"
proof (induction n)
  case (SimpleSTRnode3d a cs it b l)
  have "sum_list (map (getNumLeafNodes leaf) cs) = sum_list (map (\<lambda>c. of_nat (length (filter leaf (subtree c)))) cs)"
    using SimpleSTRnode3d.IH by (intro arg_cong[where f=sum_list] map_cong) auto
  then show ?case
    by (simp add: fold_add_word filter_concat length_concat comp_def of_nat_sum_list)
qed

lemma leaves_childless_child:
  "leaves_childless leaf (SimpleSTRnode3d a cs it b l) \<Longrightarrow> c \<in> set cs \<Longrightarrow> leaves_childless leaf c"
  by (auto simp: leaves_childless_def list_all_iff)

lemma getNumNodes_count:
  "leaves_childless leaf n \<Longrightarrow> getNumNodes leaf n = of_nat (length (subtree n))"
proof (induction n)
  case (SimpleSTRnode3d a cs it b l)
  show ?case
  proof (cases "leaf (SimpleSTRnode3d a cs it b l)")
    case True
    with SimpleSTRnode3d.prems have "cs = []"
      by (simp add: leaves_childless_def)
    with True show ?thesis by simp
  next
    case False
    have "sum_list (map (getNumNodes leaf) cs) = sum_list (map (\<lambda>c. of_nat (length (subtree c))) cs)"
      using SimpleSTRnode3d.IH leaves_childless_child[OF SimpleSTRnode3d.prems]
      by (intro arg_cong[where f=sum_list] map_cong) auto
    with False show ?thesis
      by (simp add: fold_add_word length_concat comp_def of_nat_sum_list)
  qed
qed

lemma leaves_childless_isLeaf: "leaves_childless isLeaf n"
  by (simp add: leaves_childless_def isLeaf_def list_all_iff)

lemma unat_count: "k < 2 ^ 64 \<Longrightarrow> unat (of_nat k :: 64 word) = k"
  by (simp add: unat_of_nat)

text \<open>
  Claim C9. \<^verbatim>\<open>getNumNodes\<close> is 1 for a leaf and otherwise 1 plus the sum over the
  children; where no leaf has children, as with the leaf test of the spec, this is the
  number of nodes of the subtree. \<^verbatim>\<open>getNumLeafNodes\<close> is the number of nodes of the
  subtree that are leaves, 1 for a leaf without children. Both are \<^verbatim>\<open>std::size_t\<close>
  values: they are these numbers modulo \<open>2^64\<close>, and the numbers themselves for a subtree
  of fewer than \<open>2^64\<close> nodes. The tree's \<^verbatim>\<open>getNumLeafNodes\<close> is 0 when the tree has
  no root.
\<close>

theorem subtree_counts:
  "getNumNodes leaf n = (if leaf n then 1 else 1 + sum_list (map (getNumNodes leaf) (childNodes n)))
   \<and> (leaves_childless leaf n \<longrightarrow> getNumNodes leaf n = of_nat (length (subtree n)))
   \<and> (leaves_childless leaf n \<and> length (subtree n) < 2 ^ 64 \<longrightarrow>
        unat (getNumNodes leaf n) = length (subtree n))
   \<and> getNumNodes isLeaf n = of_nat (length (subtree n))
   \<and> getNumLeafNodes leaf n = of_nat (length (filter leaf (subtree n)))
   \<and> (length (subtree n) < 2 ^ 64 \<longrightarrow>
        unat (getNumLeafNodes leaf n) = length (filter leaf (subtree n)))
   \<and> (leaf n \<and> childNodes n = [] \<longrightarrow> getNumLeafNodes leaf n = 1)
   \<and> (root t = None \<longrightarrow> tree_getNumLeafNodes f t = 0)"
proof -
  have 1: "getNumLeafNodes leaf n = 1" if "leaf n" "childNodes n = []"
    using that by (cases n) simp
  have 2: "unat (getNumNodes leaf n) = length (subtree n)"
    if "leaves_childless leaf n" "length (subtree n) < 2 ^ 64"
    using that by (simp add: getNumNodes_count unat_count)
  have 3: "unat (getNumLeafNodes leaf n) = length (filter leaf (subtree n))"
    if "length (subtree n) < 2 ^ 64"
  proof -
    have "length (filter leaf (subtree n)) \<le> length (subtree n)" by simp
    from le_less_trans[OF this that] have "length (filter leaf (subtree n)) < 2 ^ 64" .
    then show ?thesis unfolding getNumLeafNodes_count by (rule unat_count)
  qed
  have 4: "getNumNodes isLeaf n = of_nat (length (subtree n))"
    by (rule getNumNodes_count[OF leaves_childless_isLeaf])
  from 1 2 3 4 show ?thesis
    using getNumNodes_eq[of leaf n] getNumNodes_count[of leaf n] getNumLeafNodes_count[of leaf n]
    by (simp add: tree_getNumLeafNodes_def)
qed

theorem subtree_counts_witness:
  "leaves_childless isLeaf parent_AB
   \<and> getNumNodes isLeaf parent_AB = 3 \<and> getNumLeafNodes isLeaf parent_AB = 2
   \<and> getNumLeafNodes isLeaf leaf_A = 1
   \<and> tree_getNumLeafNodes (\<lambda>r. 1) (new_SimpleSTRtree 10 None) = 0"
proof -
  have h: "leaves_childless isLeaf parent_AB"
    by (simp add: leaves_childless_def parent_AB_eq leaf_A_def leaf_B_def isLeaf_def)
  have r: "root (new_SimpleSTRtree 10 None) = None" by (simp add: new_SimpleSTRtree_def)
  have l: "isLeaf leaf_A \<and> childNodes leaf_A = []" by (simp add: leaf_A_def isLeaf_def)
  from subtree_counts[of isLeaf parent_AB "new_SimpleSTRtree 10 None" "\<lambda>r. 1"] h r
  have "getNumNodes isLeaf parent_AB = of_nat (length (subtree parent_AB))"
    and "getNumLeafNodes isLeaf parent_AB = of_nat (length (filter isLeaf (subtree parent_AB)))"
    and "tree_getNumLeafNodes (\<lambda>r. 1) (new_SimpleSTRtree 10 None) = 0"
    by blast+
  moreover from subtree_counts[of isLeaf leaf_A "new_SimpleSTRtree 10 None" "\<lambda>r. 1"] l
  have "getNumLeafNodes isLeaf leaf_A = 1" by blast
  ultimately show ?thesis using h
    by (simp add: parent_AB_eq leaf_A_def leaf_B_def isLeaf_def)
qed

lemma step_nodeCapacity: "step P t c = Inr t' \<Longrightarrow> nodeCapacity t' = nodeCapacity t"
  by (cases c)
     (auto simp: tree_insert_def tree_insert3d_def build_def build3d_def getRoot_def getRoot3d_def
        tree_remove_def Let_def split: if_splits option.splits prod.splits)

lemma run_nodeCapacity: "run P t cs = Inr t' \<Longrightarrow> nodeCapacity t' = nodeCapacity t"
proof (induction cs arbitrary: t)
  case Nil
  then show ?case by simp
next
  case (Cons c cs)
  then obtain t1 where s: "step P t c = Inr t1" and r: "run P t1 cs = Inr t'"
    by (auto split: sum.splits)
  from Cons.IH[OF r] step_nodeCapacity[OF s] show ?case by simp
qed

lemma step_built:
  "step P t c = Inr t' \<Longrightarrow> built t' = (built t \<or> builds c)"
  by (cases c)
     (auto simp: tree_insert_def tree_insert3d_def build_def build3d_def getRoot_def getRoot3d_def
        tree_remove_def Let_def split: if_splits option.splits prod.splits)

lemma step_returns: "inserts c \<longrightarrow> \<not> built t \<Longrightarrow> \<exists>t'. step P t c = Inr t'"
  by (cases c) (auto simp: tree_insert_def tree_insert3d_def)

lemma run_returns: "keeps_contract (built t) cs \<Longrightarrow> \<exists>t'. run P t cs = Inr t'"
proof (induction cs arbitrary: t)
  case Nil
  then show ?case by simp
next
  case (Cons c cs)
  from Cons.prems have "inserts c \<longrightarrow> \<not> built t" by (auto split: if_splits)
  from step_returns[OF this] obtain t1 where s: "step P t c = Inr t1" by blast
  have "built t1 = (built t \<or> builds c)" by (rule step_built[OF s])
  moreover have "inserts c \<Longrightarrow> \<not> builds c" by (cases c) simp_all
  ultimately have "keeps_contract (built t1) cs"
    using Cons.prems by (auto split: if_splits)
  from Cons.IH[OF this] s show ?case by simp
qed

lemma nodeCapacity_new: "nodeCapacity (new_SimpleSTRtree capacity r3) = capacity"
  by (simp add: new_SimpleSTRtree_def)

lemma built_new: "built (new_SimpleSTRtree capacity r3) = False"
  by (simp add: new_SimpleSTRtree_def)

text \<open>
  Claim C7, as amended. \<^verbatim>\<open>getNodeCapacity\<close> of a constructed tree is the capacity given
  to the constructor, whatever it is, and it is still that capacity after any sequence
  of operations; a sequence in which no insertion follows a build runs to its end.
\<close>

theorem getNodeCapacity_is_constructor_argument:
  "getNodeCapacity (new_SimpleSTRtree capacity r3) = capacity
   \<and> (\<forall>t'. run P (new_SimpleSTRtree capacity r3) cs = Inr t' \<longrightarrow> getNodeCapacity t' = capacity)
   \<and> (\<forall>t'. run P t cs = Inr t' \<longrightarrow> getNodeCapacity t' = getNodeCapacity t)
   \<and> (keeps_contract False cs \<longrightarrow> (\<exists>t'. run P (new_SimpleSTRtree capacity r3) cs = Inr t'))"
proof -
  have "\<exists>t'. run P (new_SimpleSTRtree capacity r3) cs = Inr t'" if "keeps_contract False cs"
    using run_returns[of "new_SimpleSTRtree capacity r3" cs P] that by (simp add: built_new)
  moreover have "getNodeCapacity t' = capacity"
    if "run P (new_SimpleSTRtree capacity r3) cs = Inr t'" for t'
    using run_nodeCapacity[OF that] by (simp add: getNodeCapacity_def nodeCapacity_new)
  moreover have "getNodeCapacity t' = getNodeCapacity t" if "run P t cs = Inr t'" for t'
    using run_nodeCapacity[OF that] by (simp add: getNodeCapacity_def)
  moreover have "getNodeCapacity (new_SimpleSTRtree capacity r3) = capacity"
    by (simp add: getNodeCapacity_def nodeCapacity_new)
  ultimately show ?thesis by blast
qed

theorem getNodeCapacity_is_constructor_argument_witness:
  "keeps_contract False example_calls \<and>
   (\<exists>t'. run example_code (new_SimpleSTRtree 4 None) example_calls = Inr t' \<and>
          getNodeCapacity t' = 4)"
proof -
  have k: "keeps_contract False example_calls" by (simp add: example_calls_def)
  from getNodeCapacity_is_constructor_argument[of 4 None example_code example_calls] k
  obtain t' where "run example_code (new_SimpleSTRtree 4 None) example_calls = Inr t'"
    and "getNodeCapacity t' = 4"
    by blast
  with k show ?thesis by blast
qed

text \<open>
  Against claim C7 as stated: a tree constructed with capacity 1 has node capacity 1.
\<close>

theorem capacity_below_two_counterexample:
  "\<not> 2 \<le> getNodeCapacity (new_SimpleSTRtree 1 None)"
  by (simp add: getNodeCapacity_def new_SimpleSTRtree_def word_le_nat_alt)

lemma env_num_union: "env_num a \<Longrightarrow> env_num b \<Longrightarrow> env_num (union_env a b)"
  by (erule env_num_cases; erule env_num_cases)
     (auto simp: union_env_def isNull_def env_num_def setToNull_def nan_free_def ordinates_def)

lemma union_env_assoc:
  "env_num a \<Longrightarrow> env_num b \<Longrightarrow> env_num c \<Longrightarrow> union_env a (union_env b c) = union_env (union_env a b) c"
  by (erule env_num_cases; erule env_num_cases; erule env_num_cases)
     (simp_all add: union_env_def isNull_def min.assoc max.assoc)

lemma env_num_minimal_cover: "\<forall>e\<in>set es. env_num e \<Longrightarrow> env_num (minimal_cover es)"
proof (induction es)
  case Nil
  show ?case by (simp add: env_num_def isNull_def setToNull_def)
next
  case (Cons x xs)
  then show ?case by (simp add: env_num_union)
qed

lemma minimal_cover_snoc:
  "\<forall>x\<in>set es. env_num x \<Longrightarrow> env_num e \<Longrightarrow> minimal_cover (es @ [e]) = union_env (minimal_cover es) e"
proof (induction es)
  case Nil
  then show ?case by (erule_tac env_num_cases) (simp_all add: union_env_def isNull_def)
next
  case (Cons x xs)
  then show ?case
    by (simp add: union_env_assoc env_num_minimal_cover)
qed

lemma expand_is_union:
  "env_num b \<Longrightarrow> env_num c \<Longrightarrow>
     (if isNull b then c else expandToInclude b c) = union_env b c"
  by (erule env_num_cases; erule env_num_cases)
     (auto simp: union_env_def expandToInclude_def isNull_def gt_d_def min_def max_def)

lemma covers_union1: "env_num a \<Longrightarrow> env_num b \<Longrightarrow> \<not> isNull a \<Longrightarrow> covers (union_env a b) a"
  by (erule env_num_cases; erule env_num_cases)
     (auto simp: union_env_def isNull_def covers_def ge_d_def)

lemma covers_union2: "env_num a \<Longrightarrow> env_num b \<Longrightarrow> \<not> isNull b \<Longrightarrow> covers (union_env a b) b"
  by (erule env_num_cases; erule env_num_cases)
     (auto simp: union_env_def isNull_def covers_def ge_d_def)

lemma le_d_trans: "le_d a b \<Longrightarrow> le_d b c \<Longrightarrow> le_d a c"
  by (cases a; cases b; cases c) simp_all

lemma covers_trans: "covers a b \<Longrightarrow> covers b c \<Longrightarrow> covers a c"
  unfolding covers_def ge_d_def by (blast intro: le_d_trans)

lemma covers_not_null: "covers b e \<Longrightarrow> \<not> isNull b"
  by (cases "maxx b") (auto simp: covers_def isNull_def)

lemma minimal_cover_covers:
  "\<forall>x\<in>set es. env_num x \<Longrightarrow> e \<in> set es \<Longrightarrow> \<not> isNull e \<Longrightarrow> covers (minimal_cover es) e"
proof (induction es)
  case Nil
  then show ?case by simp
next
  case (Cons x xs)
  have ix: "env_num x" and im: "env_num (minimal_cover xs)"
    using Cons.prems(1) by (simp_all add: env_num_minimal_cover)
  show ?case
  proof (cases "e = x")
    case True
    then show ?thesis using covers_union1[OF ix im] Cons.prems(3) by simp
  next
    case False
    then have c: "covers (minimal_cover xs) e" using Cons by simp
    then have "\<not> isNull (minimal_cover xs)" by (rule covers_not_null)
    with c show ?thesis using covers_union2[OF ix im] covers_trans by auto
  qed
qed

lemma covers_union_least:
  "env_num a \<Longrightarrow> env_num b \<Longrightarrow> (\<not> isNull a \<longrightarrow> covers c a) \<Longrightarrow> (\<not> isNull b \<longrightarrow> covers c b) \<Longrightarrow>
   \<not> isNull (union_env a b) \<Longrightarrow> covers c (union_env a b)"
  by (erule env_num_cases; erule env_num_cases;
      cases "minx c"; cases "maxx c"; cases "miny c"; cases "maxy c"; cases "minz c"; cases "maxz c")
     (simp_all add: union_env_def isNull_def covers_def ge_d_def)

lemma minimal_cover_least:
  "\<forall>x\<in>set es. env_num x \<Longrightarrow> \<forall>x\<in>set es. \<not> isNull x \<longrightarrow> covers c x \<Longrightarrow>
   \<not> isNull (minimal_cover es) \<Longrightarrow> covers c (minimal_cover es)"
proof (induction es)
  case Nil
  then show ?case by (simp add: isNull_def)
next
  case (Cons x xs)
  have ix: "env_num x" and im: "env_num (minimal_cover xs)"
    using Cons.prems(1) by (simp_all add: env_num_minimal_cover)
  have "\<not> isNull (minimal_cover xs) \<longrightarrow> covers c (minimal_cover xs)"
    using Cons by simp
  then show ?case
    using covers_union_least[OF ix im] Cons.prems by simp
qed

lemma covers_refl: "nan_free e \<Longrightarrow> covers e e"
  by (erule nan_free_Fin) (simp add: covers_def ge_d_def)

lemma add_keeps_cover:
  assumes cc: "covers_children n" and ib: "env_num (bounds n)" and ic: "env_num (getEnvelope c)"
  shows "covers_children (addChildNode3d n c)"
proof -
  obtain a cs it b l where n: "n = SimpleSTRnode3d a cs it b l" by (cases n)
  let ?e = "getEnvelope c"
  let ?b' = "union_env b ?e"
  from ib n have ib: "env_num b" by simp
  have b': "bounds (addChildNode3d n c) = ?b'"
    using expand_is_union[OF ib ic] n by simp
  have old: "isNull (getEnvelope k) \<or> covers ?b' (getEnvelope k)" if "k \<in> set cs" for k
  proof (cases "isNull (getEnvelope k)")
    case True
    then show ?thesis by simp
  next
    case False
    with cc that n have c: "covers b (getEnvelope k)"
      by (auto simp: covers_children_def list_all_iff)
    then have "\<not> isNull b" by (rule covers_not_null)
    from covers_union1[OF ib ic this] have "covers ?b' b" .
    from covers_trans[OF this c] show ?thesis by simp
  qed
  have new: "isNull ?e \<or> covers ?b' ?e"
  proof (cases "isNull ?e")
    case True
    then show ?thesis by simp
  next
    case False
    from covers_union2[OF ib ic this] show ?thesis by simp
  qed
  show ?thesis
    unfolding covers_children_def b' using old new n by (simp add: list_all_iff)
qed

text \<open>
  Claim C1, as amended. For every node: \<^verbatim>\<open>addChildNode3d\<close> appends the child after the
  existing children, and the new bounds are the child's envelope when the old bounds
  were null and the old bounds expanded to include it otherwise; \<^verbatim>\<open>removeItem\<close> and
  \<^verbatim>\<open>removeChild\<close> leave the bounds as they were, and bounds that covered the envelope
  of every non-null child still cover those of the remaining children. For envelopes
  that are null with all extents NaN or made of numbers: bounds that covered the
  children's envelopes before \<^verbatim>\<open>addChildNode3d\<close> cover them afterwards, the new
  child's included, and bounds that were the minimal cover of the children's envelopes
  are the minimal cover afterwards.
\<close>

theorem addChildNode3d_keeps_minimal_cover:
  "childNodes (addChildNode3d n c) = childNodes n @ [c]
   \<and> bounds (addChildNode3d n c) =
        (if isNull (bounds n) then getEnvelope c else expandToInclude (bounds n) (getEnvelope c))
   \<and> bounds (snd (removeItem n x)) = bounds n
   \<and> bounds (snd (removeChild n p)) = bounds n
   \<and> (covers_children n \<longrightarrow>
        covers_children (snd (removeItem n x)) \<and> covers_children (snd (removeChild n p)))
   \<and> (env_num (bounds n) \<and> env_num (getEnvelope c) \<longrightarrow> env_num (bounds (addChildNode3d n c)))
   \<and> (covers_children n \<and> env_num (bounds n) \<and> env_num (getEnvelope c) \<longrightarrow>
        covers_children (addChildNode3d n c))
   \<and> ((\<forall>k\<in>set (childNodes n). env_num (getEnvelope k)) \<and> env_num (getEnvelope c) \<and>
        bounds n = minimal_cover (map getEnvelope (childNodes n)) \<longrightarrow>
        bounds (addChildNode3d n c) = minimal_cover (map getEnvelope (childNodes (addChildNode3d n c))))"
proof -
  obtain a cs it b l where n: "n = SimpleSTRnode3d a cs it b l" by (cases n)
  let ?es = "map getEnvelope cs"
  have 1: "childNodes (addChildNode3d n c) = childNodes n @ [c]" using n by simp
  have 2: "bounds (addChildNode3d n c) =
        (if isNull (bounds n) then getEnvelope c else expandToInclude (bounds n) (getEnvelope c))"
    using n by simp
  have fi: "bounds (snd (removeItem n x)) = bounds n" and si: "set (childNodes (snd (removeItem n x))) \<subseteq> set cs"
    using removal_frame[OF refl, where P="\<lambda>c. getItem c = x" and cs=cs and a=a and it=it and b=b and l=l] n
    by (auto split: if_splits)
  have fc: "bounds (snd (removeChild n p)) = bounds n" and sc: "set (childNodes (snd (removeChild n p))) \<subseteq> set cs"
    using removal_frame[OF refl, where P="\<lambda>c. addr c = p" and cs=cs and a=a and it=it and b=b and l=l] n
    by (auto split: if_splits)
  have 5: "covers_children (snd (removeItem n x)) \<and> covers_children (snd (removeChild n p))"
    if "covers_children n"
    using that si sc n unfolding covers_children_def fi fc list_all_iff by auto
  have 6: "env_num (bounds (addChildNode3d n c))"
    if ib0: "env_num (bounds n)" and ic: "env_num (getEnvelope c)"
  proof -
    from ib0 n have ib: "env_num b" by simp
    show ?thesis using expand_is_union[OF ib ic] env_num_union[OF ib ic] n by simp
  qed
  have 8: "bounds (addChildNode3d n c) = minimal_cover (map getEnvelope (childNodes (addChildNode3d n c)))"
    if ik: "\<forall>k\<in>set (childNodes n). env_num (getEnvelope k)" and ic: "env_num (getEnvelope c)"
      and bm: "bounds n = minimal_cover (map getEnvelope (childNodes n))"
  proof -
    have inv: "\<forall>e\<in>set ?es. env_num e" using ik n by simp
    have b: "b = minimal_cover ?es" using bm n by simp
    have ib: "env_num b" unfolding b by (rule env_num_minimal_cover[OF inv])
    have "bounds (addChildNode3d n c) =
            (if isNull b then getEnvelope c else expandToInclude b (getEnvelope c))"
      using n by simp
    also have "\<dots> = union_env b (getEnvelope c)"
      by (rule expand_is_union[OF ib ic])
    also have "\<dots> = minimal_cover (?es @ [getEnvelope c])"
      unfolding b by (rule minimal_cover_snoc[OF inv ic, symmetric])
    also have "?es @ [getEnvelope c] = map getEnvelope (childNodes (addChildNode3d n c))"
      using n by simp
    finally show ?thesis .
  qed
  from 1 2 fi fc 5 6 8 add_keeps_cover[of n c] show ?thesis by blast
qed

lemma parent_A_eq: "parent_A = SimpleSTRnode3d 100 [leaf_A] 0 (cube 0 1) 1"
  by (simp add: parent_A_def leaf_A_def null_env_def isNull_def getEnvelope_def)

theorem addChildNode3d_keeps_minimal_cover_witness:
  "env_num (getEnvelope leaf_A) \<and> env_num (getEnvelope leaf_B) \<and> env_num (bounds parent_A)
   \<and> bounds parent_A = minimal_cover (map getEnvelope (childNodes parent_A))
   \<and> bounds (addChildNode3d parent_A leaf_B) =
       minimal_cover (map getEnvelope (childNodes (addChildNode3d parent_A leaf_B)))
   \<and> childNodes (addChildNode3d parent_A leaf_B) = [leaf_A, leaf_B]
   \<and> bounds (addChildNode3d parent_A leaf_B) = cube 0 6
   \<and> covers_children parent_AB
   \<and> covers_children (snd (removeItem parent_AB 2))
   \<and> covers_children (addChildNode3d (snd (removeItem parent_AB 2)) leaf_B)"
proof -
  have a: "env_num (getEnvelope leaf_A)" and h2: "env_num (getEnvelope leaf_B)"
    by (simp_all add: leaf_A_def leaf_B_def getEnvelope_def env_num_cube)
  have bn: "env_num (bounds parent_A)" by (simp add: parent_A_eq env_num_cube)
  have h1: "\<forall>k\<in>set (childNodes parent_A). env_num (getEnvelope k)"
    using a by (simp add: parent_A_eq)
  have h3: "bounds parent_A = minimal_cover (map getEnvelope (childNodes parent_A))"
    by (simp add: parent_A_eq leaf_A_def getEnvelope_def union_env_def isNull_def cube_def)
  note t = addChildNode3d_keeps_minimal_cover[of parent_A leaf_B 0 0]
  from t h1 h2 h3 have b: "bounds (addChildNode3d parent_A leaf_B) =
       minimal_cover (map getEnvelope (childNodes (addChildNode3d parent_A leaf_B)))"
    by blast
  from t have c: "childNodes (addChildNode3d parent_A leaf_B) = [leaf_A, leaf_B]"
    by (simp add: parent_A_eq)
  have d: "bounds (addChildNode3d parent_A leaf_B) = cube 0 6"
    by (simp add: parent_A_eq leaf_B_def getEnvelope_def expandToInclude_def isNull_def cube_def gt_d_def)
  have cc: "covers_children parent_AB"
    by (simp add: covers_children_def parent_AB_eq leaf_A_def leaf_B_def getEnvelope_def covers_def
        cube_def ge_d_def)
  from addChildNode3d_keeps_minimal_cover[of parent_AB leaf_B 2 0] cc
  have cr: "covers_children (snd (removeItem parent_AB 2))" by blast
  have br: "env_num (bounds (snd (removeItem parent_AB 2)))"
    using addChildNode3d_keeps_minimal_cover[of parent_AB leaf_B 2 0]
    by (simp add: parent_AB_eq env_num_cube)
  from addChildNode3d_keeps_minimal_cover[of "snd (removeItem parent_AB 2)" leaf_B 0 0] cr br h2
  have ca: "covers_children (addChildNode3d (snd (removeItem parent_AB 2)) leaf_B)" by blast
  from a h2 bn h3 b c d cc cr ca show ?thesis by blast
qed

text \<open>
  Against claim C1 as stated: after \<^verbatim>\<open>removeItem\<close> the bounds of the node are no longer
  the minimal cover of the envelopes of its children; and after \<^verbatim>\<open>addChildNode3d\<close> of
  a child whose envelope has NaN on one axis, as \<^verbatim>\<open>expandBy\<close> with a NaN delta makes
  it, the bounds neither cover that envelope nor are the minimal cover.
\<close>

theorem removeItem_breaks_minimal_cover_counterexample:
  "bounds parent_AB = minimal_cover (map getEnvelope (childNodes parent_AB))
   \<and> removeItem parent_AB 2 = (True, SimpleSTRnode3d 100 [leaf_A] 0 (cube 0 6) 1)
   \<and> bounds (snd (removeItem parent_AB 2)) \<noteq>
       minimal_cover (map getEnvelope (childNodes (snd (removeItem parent_AB 2))))
   \<and> getEnvelope leaf_N = expandBy (cube 0 1) (Fin 0) NaN (Fin 0)
   \<and> \<not> isNull (getEnvelope leaf_N)
   \<and> bounds parent_A = minimal_cover (map getEnvelope (childNodes parent_A))
   \<and> bounds (addChildNode3d parent_A leaf_N) = cube 0 1
   \<and> \<not> covers (bounds (addChildNode3d parent_A leaf_N)) (getEnvelope leaf_N)
   \<and> bounds (addChildNode3d parent_A leaf_N) \<noteq>
       minimal_cover (map getEnvelope (childNodes (addChildNode3d parent_A leaf_N)))"
proof -
  have 1: "bounds parent_AB = minimal_cover (map getEnvelope (childNodes parent_AB))
   \<and> removeItem parent_AB 2 = (True, SimpleSTRnode3d 100 [leaf_A] 0 (cube 0 6) 1)
   \<and> bounds (snd (removeItem parent_AB 2)) \<noteq>
       minimal_cover (map getEnvelope (childNodes (snd (removeItem parent_AB 2))))"
    by (simp add: parent_AB_eq leaf_A_def leaf_B_def getEnvelope_def getItem_def erase_def
      union_env_def isNull_def cube_def)
  have 2: "getEnvelope leaf_N = expandBy (cube 0 1) (Fin 0) NaN (Fin 0)"
    by (simp add: leaf_N_def getEnvelope_def nan_axis_env_def)
  have 3: "\<not> isNull (getEnvelope leaf_N)"
    by (simp add: leaf_N_def getEnvelope_def nan_axis_env_eq isNull_def)
  have 4: "bounds parent_A = minimal_cover (map getEnvelope (childNodes parent_A))"
    by (simp add: parent_A_eq leaf_A_def getEnvelope_def union_env_def isNull_def cube_def)
  have 5: "bounds (addChildNode3d parent_A leaf_N) = cube 0 1"
    by (simp add: parent_A_eq leaf_N_def getEnvelope_def nan_axis_env_eq expandToInclude_def
        isNull_def cube_def gt_d_def)
  have 6: "\<not> covers (bounds (addChildNode3d parent_A leaf_N)) (getEnvelope leaf_N)"
    unfolding 5 by (simp add: leaf_N_def getEnvelope_def nan_axis_env_eq covers_def cube_def ge_d_def)
  have 7: "bounds (addChildNode3d parent_A leaf_N) \<noteq>
       minimal_cover (map getEnvelope (childNodes (addChildNode3d parent_A leaf_N)))"
    unfolding 5
    by (simp add: parent_A_eq leaf_A_def leaf_N_def getEnvelope_def nan_axis_env_eq union_env_def
        isNull_def cube_def)
  from 1 2 3 4 5 6 7 show ?thesis by blast
qed

section \<open>Properties of the textual form\<close>

lemma first_index_none: "\<forall>c\<in>set t. \<not> P c \<Longrightarrow> first_index P t = None"
  by (induction t) simp_all

lemma first_index_append: "\<forall>c\<in>set t. \<not> P c \<Longrightarrow> P d \<Longrightarrow> first_index P (t @ d # r) = Some (length t)"
  by (induction t) simp_all

lemma find_from_at:
  "find_from P (pre @ s) (Some (length pre)) = map_option (\<lambda>i. length pre + i) (first_index P s)"
  by (simp add: find_from_def)

lemma join_tokens_hd:
  assumes "\<forall>(t, d)\<in>set r. t \<noteq> [] \<and> (\<forall>c\<in>set t. c \<notin> set ds)" "final \<noteq> []" "\<forall>c\<in>set final. c \<notin> set ds"
  shows "\<exists>c w. join_tokens r final = c # w \<and> c \<notin> set ds"
proof (cases r)
  case Nil
  then show ?thesis using assms by (cases final) auto
next
  case (Cons a r')
  then show ?thesis using assms by (cases a; cases "fst a") auto
qed

lemma split_loop_tokens:
  assumes "\<forall>(t, d)\<in>set r. t \<noteq> [] \<and> (\<forall>c\<in>set t. c \<notin> set ds) \<and> d \<in> set ds"
    and "final \<noteq> []" and "\<forall>c\<in>set final. c \<notin> set ds"
  shows "split_loop (pre @ join_tokens r final) ds (Some (length pre))
           (find_first_of (pre @ join_tokens r final) ds (Some (length pre))) acc =
         Inr (acc @ map fst r @ [final])"
  using assms(1)
proof (induction r arbitrary: pre acc)
  case Nil
  have f: "find_first_of (pre @ final) ds (Some (length pre)) = None"
    using assms(3) by (simp add: find_first_of_def find_from_at first_index_none)
  show ?case
    apply (simp add: f)
    apply (subst split_loop.simps)
    apply (simp add: substr_def size_sub_def find_first_not_of_def find_first_of_def find_from_def)
    apply (subst split_loop.simps)
    apply simp
    done
next
  case (Cons a r)
  obtain t d where a: "a = (t, d)" by (cases a)
  from Cons.prems a have t: "t \<noteq> []" "\<forall>c\<in>set t. c \<notin> set ds" "d \<in> set ds"
    and r: "\<forall>(t, d)\<in>set r. t \<noteq> [] \<and> (\<forall>c\<in>set t. c \<notin> set ds) \<and> d \<in> set ds"
    by auto
  let ?rest = "join_tokens r final"
  let ?str = "pre @ t @ d # ?rest"
  from r have "\<forall>(t, d)\<in>set r. t \<noteq> [] \<and> (\<forall>c\<in>set t. c \<notin> set ds)" by auto
  from join_tokens_hd[OF this assms(2,3)] obtain c w where
    cw: "?rest = c # w" "c \<notin> set ds" by blast
  have f1: "find_first_of ?str ds (Some (length pre)) = Some (length pre + length t)"
    using t by (simp add: find_first_of_def find_from_at first_index_append)
  have "find_first_not_of ((pre @ t) @ d # c # w) ds (Some (length (pre @ t))) = Some (length (pre @ t) + 1)"
    using t(3) cw(2) unfolding find_first_not_of_def find_from_at by simp
  then have f2: "find_first_not_of ?str ds (Some (length pre + length t)) = Some (length (pre @ t @ [d]))"
    using cw(1) by simp
  have sub: "substr ?str (Some (length pre)) (size_sub (Some (length pre + length t)) (Some (length pre))) = Inr t"
    by (simp add: substr_def size_sub_def)
  have str: "?str = (pre @ t @ [d]) @ ?rest" by simp
  have "split_loop ?str ds (Some (length pre)) (find_first_of ?str ds (Some (length pre))) acc
        = split_loop ?str ds (Some (length (pre @ t @ [d])))
            (find_first_of ?str ds (Some (length (pre @ t @ [d])))) (acc @ [t])"
    unfolding f1
    apply (subst split_loop.simps)
    apply (simp only: sub f2)
    apply simp
    done
  also have "\<dots> = Inr ((acc @ [t]) @ map fst r @ [final])"
    unfolding str by (rule Cons.IH[OF r])
  finally show ?case by (simp add: a)
qed

lemma split_tokens:
  assumes "\<forall>(t, d)\<in>set r. t \<noteq> [] \<and> (\<forall>c\<in>set t. c \<notin> set ds) \<and> d \<in> set ds"
    and "final \<noteq> []" and "\<forall>c\<in>set final. c \<notin> set ds"
  shows "split (join_tokens r final) ds = Inr (map fst r @ [final])"
  using split_loop_tokens[OF assms, of "[]" "[]"] by (simp add: split_def)

lemma find_char_le: "find_char str c = Some i \<Longrightarrow> i < length str"
  unfolding find_char_def by (drule find_from_SomeD) simp

lemma substr_coordString:
  "substr str (Some (case find_char str CHR ''['' of None \<Rightarrow> 0 | Some i \<Rightarrow> i + 1))
      (if length str < 2 then None else Some (length str - 2)) = Inr (coordString_of str)"
  by (auto simp: substr_def coordString_of_def Let_def split: option.splits dest: find_char_le)




lemma coordString_operator_out:
  "coordString_of (operator_out put e) =
     join_tokens [(put (minx e), CHR '':''), (put (maxx e), CHR '',''), (put (miny e), CHR '':''),
                  (put (maxy e), CHR '',''), (put (minz e), CHR '':'')] (put (maxz e) @ '']'')"
proof -
  have "find_char (operator_out put e) CHR ''['' = Some 3"
    by (simp add: find_char_def find_from_def operator_out_def)
  then show ?thesis
    by (simp add: coordString_of_def operator_out_def)
qed

lemma of_string_operator_out:
  assumes "\<forall>d\<in>set (ordinates e). put d \<noteq> [] \<and> CHR '':'' \<notin> set (put d) \<and> CHR '','' \<notin> set (put d)"
  shows "Envelope3d_of_string conv (operator_out put e) =
           Inr (init (conv (put (minx e))) (conv (put (maxx e))) (conv (put (miny e)))
                     (conv (put (maxy e))) (conv (put (minz e))) (conv (put (maxz e) @ '']'')))"
proof -
  let ?r = "[(put (minx e), CHR '':''), (put (maxx e), CHR '',''), (put (miny e), CHR '':''),
             (put (maxy e), CHR '',''), (put (minz e), CHR '':'')]"
  have "split (join_tokens ?r (put (maxz e) @ '']'')) '':,'' = Inr (map fst ?r @ [put (maxz e) @ '']''])"
    using assms by (intro split_tokens) (auto simp: ordinates_def)
  then show ?thesis
    unfolding Envelope3d_of_string_def Let_def substr_coordString coordString_operator_out
    by simp
qed

lemmas put_double_eval =
  put_double_def put_positive_def decimal_exponent_def exp_ge1.simps exp_lt1.simps scale10_def
  round_half_even_def Let_def show_nat.simps digit_char_def with_fraction_def

lemmas strtod_eval =
  strtod_def take_sign_def is_space_def nan_prefix_def is_digit_def exponent_part_def
  digits_value_def digit_value_def scale10_def Let_def

lemma init_ordered:
  assumes "env_inv e" and "\<not> isNull e"
  shows "init (minx e) (maxx e) (miny e) (maxy e) (minz e) (maxz e) = e"
proof -
  from assms obtain x1 x2 y1 y2 z1 z2 where
    e: "e = \<lparr>minx = Fin x1, maxx = Fin x2, miny = Fin y1, maxy = Fin y2, minz = Fin z1, maxz = Fin z2\<rparr>"
    and "x1 \<le> x2" "y1 \<le> y2" "z1 \<le> z2"
    by (rule env_inv_nonnull)
  then show ?thesis by (auto simp: init_def)
qed

lemma put_examples:
  "put_double (Fin (- (5 / 2))) = ''-2.5''" "put_double (Fin 1000000) = ''1e+06''"
  "put_double (Fin 0) = ''0''" "put_double (Fin (1 / 2)) = ''0.5''"
  "put_double (Fin 1) = ''1''" "put_double (Fin 12) = ''12''"
  "put_double (Fin 1234567) = ''1.23457e+06''"
  by (simp_all add: put_double_eval)

lemma strtod_examples:
  "strtod ''-2.5'' = Fin (- (5 / 2))" "strtod ''1e+06'' = Fin 1000000"
  "strtod ''0'' = Fin 0" "strtod ''0.5'' = Fin (1 / 2)"
  "strtod ''1'' = Fin 1" "strtod ''12'' = Fin 12" "strtod ''12]'' = Fin 12"
  "strtod ''1]'' = Fin 1" "strtod ''1.23457e+06'' = Fin 1234570"
  by (simp_all add: strtod_eval)

text \<open>
  Claim C3, as amended. Where the six extents are written as non-empty text without
  \<^verbatim>\<open>:\<close> and \<^verbatim>\<open>,\<close>, the string constructor applied to what \<^verbatim>\<open>operator<<\<close> wrote gives
  the envelope that \<^verbatim>\<open>init\<close> makes of the six numbers read back from the written
  extents, the last one with the closing bracket behind it. It is the original envelope
  if that is non-null with min \<open>\<le>\<close> max on every axis and every extent is read back as
  itself.
\<close>

theorem text_round_trip_up_to_number_conversion:
  assumes "\<forall>d\<in>set (ordinates e). put d \<noteq> [] \<and> CHR '':'' \<notin> set (put d) \<and> CHR '','' \<notin> set (put d)"
  shows "Envelope3d_of_string conv (operator_out put e) =
           Inr (init (conv (put (minx e))) (conv (put (maxx e))) (conv (put (miny e)))
                     (conv (put (maxy e))) (conv (put (minz e))) (conv (put (maxz e) @ '']'')))
         \<and> ((\<forall>d\<in>set (ordinates e). conv (put d) = d \<and> conv (put d @ '']'') = d) \<and>
             env_inv e \<and> \<not> isNull e \<longrightarrow>
            Envelope3d_of_string conv (operator_out put e) = Inr e)"
proof -
  note r = of_string_operator_out[OF assms, of conv]
  have "Envelope3d_of_string conv (operator_out put e) = Inr e"
    if "\<forall>d\<in>set (ordinates e). conv (put d) = d \<and> conv (put d @ '']'') = d"
      and "env_inv e" and "\<not> isNull e"
    using that(1) init_ordered[OF that(2,3)] unfolding r by (simp add: ordinates_def)
  with r show ?thesis by blast
qed

theorem text_round_trip_up_to_number_conversion_witness:
  "toString env_w = ''Env[-2.5:1e+06,0:0.5,1:12]'' \<and>
   Envelope3d_of_string strtod (toString env_w) = Inr env_w"
proof -
  have h: "\<forall>d\<in>set (ordinates env_w).
      put_double d \<noteq> [] \<and> CHR '':'' \<notin> set (put_double d) \<and> CHR '','' \<notin> set (put_double d)"
    by (simp add: ordinates_def env_w_def put_examples)
  have c: "\<forall>d\<in>set (ordinates env_w). strtod (put_double d) = d \<and> strtod (put_double d @ '']'') = d"
    by (simp add: ordinates_def env_w_def put_examples strtod_eval)
  have i: "env_inv env_w" and n: "\<not> isNull env_w"
    by (simp_all add: env_inv_def isNull_def env_w_def)
  from text_round_trip_up_to_number_conversion[OF h, of strtod] c i n
  have "Envelope3d_of_string strtod (operator_out put_double env_w) = Inr env_w" by blast
  moreover have "operator_out put_double env_w = ''Env[-2.5:1e+06,0:0.5,1:12]''"
    by (simp add: operator_out_def env_w_def put_examples)
  ultimately show ?thesis by (simp add: toString_def)
qed

text \<open>
  Against claim C3 as stated: the non-null envelope \<open>env_big\<close> has \<open>maxX = 1234567\<close>;
  \<^verbatim>\<open>toString\<close> writes it with 6 significant digits, and the constructor reads
  \<open>1234570\<close> back.
\<close>

theorem text_round_trip_loses_digits_counterexample:
  "env_inv env_big \<and> \<not> isNull env_big \<and>
   toString env_big = ''Env[0:1.23457e+06,0:1,0:1]'' \<and>
   Envelope3d_of_string strtod (toString env_big) = Inr (env_big\<lparr>maxx := Fin 1234570\<rparr>) \<and>
   maxx env_big = Fin 1234567"
proof -
  have h: "\<forall>d\<in>set (ordinates env_big).
      put_double d \<noteq> [] \<and> CHR '':'' \<notin> set (put_double d) \<and> CHR '','' \<notin> set (put_double d)"
    by (simp add: ordinates_def env_big_def put_examples)
  have "Envelope3d_of_string strtod (operator_out put_double env_big) = Inr (env_big\<lparr>maxx := Fin 1234570\<rparr>)"
    unfolding of_string_operator_out[OF h]
    by (simp add: env_big_def put_examples strtod_examples init_def)
  moreover have "operator_out put_double env_big = ''Env[0:1.23457e+06,0:1,0:1]''"
    by (simp add: operator_out_def env_big_def put_examples)
  ultimately show ?thesis by (simp add: toString_def isNull_def env_inv_def env_big_def)
qed






end
